theory Spec2Isabelle
  imports Main "HOL-Library.Word"
begin

unbundle bit_operations_syntax

section \<open>Workflow state machine (Src/main.c)\<close>

text \<open>
  The enumeration \<^verbatim>\<open>enum states\<close>, with its C values 0 to 7.  \<^verbatim>\<open>STOP\<close> has the
  value 7, one past the last row of the seven-row transition table.
\<close>

datatype states =
    WIFI_INIT
  | READ_TIME
  | OPEN_CONNECTION
  | SEND_DATA
  | RECEIVE_DATA
  | CLOSE_CONNECTION
  | POWER_DOWN
  | STOP

fun state_value :: "states \<Rightarrow> nat" where
  "state_value WIFI_INIT = 0"
| "state_value READ_TIME = 1"
| "state_value OPEN_CONNECTION = 2"
| "state_value SEND_DATA = 3"
| "state_value RECEIVE_DATA = 4"
| "state_value CLOSE_CONNECTION = 5"
| "state_value POWER_DOWN = 6"
| "state_value STOP = 7"

definition NUM_OF_STATES :: nat where
  "NUM_OF_STATES = 7"

definition MAX_RETRIES :: "32 word" where
  "MAX_RETRIES = 5"

definition SLEEP_TIME :: nat where
  "SLEEP_TIME = 1800"

text \<open>
  The seven functions whose addresses the table stores.  What a call through such a
  pointer does is given by a handler assignment \<open>call\<close>: from the function and the
  state of the world before the call to the returned \<^verbatim>\<open>int\<close> and the world after
  it, or \<open>None\<close> when the call does not return (the handlers poll the modem).
\<close>

datatype fn_ptr =
    Fn_FSM_wifi_connection
  | Fn_FSM_read_time
  | Fn_FSM_open_connection
  | Fn_FSM_send_data
  | Fn_FSM_receive_data
  | Fn_FSM_close_connection
  | Fn_FSM_power_down

record stateflow =
  state_name :: string
  state_function :: fn_ptr
  next_states :: "nat list"
  next_state_on_success :: states
  next_state_on_failure :: states

definition state_table :: "stateflow list" where
  "state_table =
    [ \<lparr> state_name = ''[0] WiFi CONNECTION'', state_function = Fn_FSM_wifi_connection,
        next_states = [1, 0, 0, 0, 0, 0, 0],
        next_state_on_success = READ_TIME, next_state_on_failure = POWER_DOWN \<rparr>,
      \<lparr> state_name = ''[1] READ TIME FROM NTP SERVER'', state_function = Fn_FSM_read_time,
        next_states = [2, 0, 0, 0, 0, 0, 0],
        next_state_on_success = OPEN_CONNECTION, next_state_on_failure = WIFI_INIT \<rparr>,
      \<lparr> state_name = ''[2] OPEN UDP CONNECTION'', state_function = Fn_FSM_open_connection,
        next_states = [3, 0, 0, 0, 0, 0, 0],
        next_state_on_success = SEND_DATA, next_state_on_failure = WIFI_INIT \<rparr>,
      \<lparr> state_name = ''[3] SEND UDP DATA'', state_function = Fn_FSM_send_data,
        next_states = [4, 0, 0, 0, 0, 0, 0],
        next_state_on_success = RECEIVE_DATA, next_state_on_failure = CLOSE_CONNECTION \<rparr>,
      \<lparr> state_name = ''[4] RECEIVE UDP DATA'', state_function = Fn_FSM_receive_data,
        next_states = [5, 0, 0, 0, 0, 0, 0],
        next_state_on_success = CLOSE_CONNECTION, next_state_on_failure = SEND_DATA \<rparr>,
      \<lparr> state_name = ''[5] CLOSE CONNECTION'', state_function = Fn_FSM_close_connection,
        next_states = [6, 0, 0, 0, 0, 0, 0],
        next_state_on_success = POWER_DOWN, next_state_on_failure = OPEN_CONNECTION \<rparr>,
      \<lparr> state_name = ''[6] POWER DOWN'', state_function = Fn_FSM_power_down,
        next_states = [0, 0, 0, 0, 0, 0, 0],
        next_state_on_success = STOP, next_state_on_failure = WIFI_INIT \<rparr> ]"

text \<open>
  How a run of \<^verbatim>\<open>server_update\<close> ends: the loop condition finds \<^verbatim>\<open>STOP\<close>, or
  the \<^verbatim>\<open>break\<close> of the retry check is taken.  The third value stands for an access
  to \<^verbatim>\<open>state_table\<close> with an index that is not below \<^verbatim>\<open>NUM_OF_STATES\<close>, which
  in C is a read past the end of the array.
\<close>

datatype ending = ReachedStop | RetriesExhausted | TableIndexOutOfRange

record 'w fsm_run =
  ending :: ending
  current_state :: states
  retries :: "32 word"
  dispatched :: "states list"
  world :: 'w

text \<open>
  The \<^verbatim>\<open>do ... while (current_state != STOP)\<close> loop.  One unit of fuel is one
  execution of the loop body; \<open>None\<close> means that the loop is still running when the
  fuel is used up, or that a handler did not return.  \<open>MAXIMUM_RETRIES\<close> is the macro
  of that name, which no file under the sources defines (main.c defines
  \<^verbatim>\<open>MAX_RETRIES\<close> and compares with \<^verbatim>\<open>MAXIMUM_RETRIES\<close>); it is a parameter,
  compared with the \<^verbatim>\<open>uint32_t\<close> counter.  The list \<open>dispatched\<close> records, in
  order, every state whose row has been read and whose handler has been called.
\<close>

fun server_update_loop ::
  "nat \<Rightarrow> 32 word \<Rightarrow> (fn_ptr \<Rightarrow> 'w \<Rightarrow> (int \<times> 'w) option) \<Rightarrow>
   states \<Rightarrow> 32 word \<Rightarrow> states list \<Rightarrow> 'w \<Rightarrow> 'w fsm_run option" where
  "server_update_loop 0 MAXIMUM_RETRIES call cs r tr w = None"
| "server_update_loop (Suc fuel) MAXIMUM_RETRIES call cs r tr w =
    (if state_value cs < NUM_OF_STATES then
       (let row = state_table ! state_value cs in
        case call (state_function row) w of
          None \<Rightarrow> None
        | Some (result, w') \<Rightarrow>
            if r = MAXIMUM_RETRIES then
              Some \<lparr> ending = RetriesExhausted, current_state = cs, retries = r,
                     dispatched = tr @ [cs], world = w' \<rparr>
            else
              (let cs' = (if result = -1 then next_state_on_failure row
                          else if result = 0 then next_state_on_success row
                          else cs);
                   r' = (if result = -1 then r + 1 else r)
               in if cs' \<noteq> STOP
                  then server_update_loop fuel MAXIMUM_RETRIES call cs' r' (tr @ [cs]) w'
                  else Some \<lparr> ending = ReachedStop, current_state = cs', retries = r',
                              dispatched = tr @ [cs], world = w' \<rparr>))
     else Some \<lparr> ending = TableIndexOutOfRange, current_state = cs, retries = r,
                 dispatched = tr, world = w \<rparr>)"

definition server_update ::
  "nat \<Rightarrow> 32 word \<Rightarrow> (fn_ptr \<Rightarrow> 'w \<Rightarrow> (int \<times> 'w) option) \<Rightarrow> 'w \<Rightarrow> 'w fsm_run option" where
  "server_update fuel MAXIMUM_RETRIES call w =
     server_update_loop fuel MAXIMUM_RETRIES call WIFI_INIT 0 [] w"

section \<open>Wake scheduler (Src/rtc.c)\<close>

text \<open>
  The \<^verbatim>\<open>uint8_t\<close> values of rtc.c are natural numbers with the truncation to eight
  bits written out as \<open>mod 256\<close>; \<^verbatim>\<open>total_seconds\<close> is a \<^verbatim>\<open>uint32_t\<close>, and its
  quotients and remainders are computed in 32 bits, where they do not wrap.
\<close>

definition RTC_convert_bin2bcd :: "nat \<Rightarrow> nat" where
  "RTC_convert_bin2bcd v = (push_bit 4 (v div 10) OR (v mod 10)) mod 256"

definition RTC_convert_bcd2bin :: "nat \<Rightarrow> nat" where
  "RTC_convert_bcd2bin v = (drop_bit 4 (v AND 0xF0) * 10 + (v AND 0x0F)) mod 256"

text \<open>
  Lines 323 to 351 of \<^verbatim>\<open>RTC_set_alarm\<close>: the delay is split into hours, minutes and
  seconds, added to the current binary time in \<^verbatim>\<open>uint8_t\<close> variables, and the three
  overflow tests follow in the order of the source.  Each subtraction is guarded by its
  test, so it does not go below zero.
\<close>

definition RTC_alarm_time :: "nat \<times> nat \<times> nat \<Rightarrow> nat \<Rightarrow> nat \<times> nat \<times> nat" where
  "RTC_alarm_time cur total_seconds =
    (case cur of (current_hours, current_minutes, current_seconds) \<Rightarrow>
     let added_hours = total_seconds div 3600;
         added_minutes = (total_seconds mod 3600) div 60;
         added_seconds = total_seconds mod 60;
         alarm_seconds = (current_seconds + added_seconds) mod 256;
         alarm_minutes = (current_minutes + added_minutes) mod 256;
         alarm_hours = (current_hours + added_hours) mod 256;
         (alarm_seconds, alarm_minutes) =
            (if alarm_seconds \<ge> 60 then (alarm_seconds - 60, (alarm_minutes + 1) mod 256)
             else (alarm_seconds, alarm_minutes));
         (alarm_minutes, alarm_hours) =
            (if alarm_minutes \<ge> 60 then (alarm_minutes - 60, (alarm_hours + 1) mod 256)
             else (alarm_minutes, alarm_hours));
         alarm_hours = (if alarm_hours \<ge> 24 then alarm_hours - 24 else alarm_hours)
     in (alarm_hours, alarm_minutes, alarm_seconds))"

text \<open>
  Lines 316 to 356: from the BCD hour, minute and second that \<^verbatim>\<open>_RTC_get_hour\<close>,
  \<^verbatim>\<open>_RTC_get_minute\<close> and \<^verbatim>\<open>_RTC_get_second\<close> return (each passed to a
  \<^verbatim>\<open>uint8_t\<close> parameter) to the BCD hour, minute and second of the alarm.
\<close>

definition RTC_alarm_bcd :: "nat \<times> nat \<times> nat \<Rightarrow> nat \<Rightarrow> nat \<times> nat \<times> nat" where
  "RTC_alarm_bcd tr total_seconds =
    (case tr of (hour_bcd, minute_bcd, second_bcd) \<Rightarrow>
     let current_hours = RTC_convert_bcd2bin (hour_bcd mod 256);
         current_minutes = RTC_convert_bcd2bin (minute_bcd mod 256);
         current_seconds = RTC_convert_bcd2bin (second_bcd mod 256)
     in case RTC_alarm_time (current_hours, current_minutes, current_seconds) total_seconds of
          (alarm_hours, alarm_minutes, alarm_seconds) \<Rightarrow>
            (RTC_convert_bin2bcd alarm_hours, RTC_convert_bin2bcd alarm_minutes,
             RTC_convert_bin2bcd alarm_seconds))"


text \<open>
  The loop \<^verbatim>\<open>while (((RTC->ISR & RTC_ISR_ALRAWF) != RTC_ISR_ALRAWF) && --timeout) {}\<close>,
  returning the final value of \<^verbatim>\<open>timeout\<close>.  It is entered with the nonzero constant
  200000, and the counter is never zero at a test of the flag, so the equation for zero
  is not reached.
\<close>

fun wait_ALRAWF :: "(nat \<Rightarrow> bool) \<Rightarrow> nat \<Rightarrow> nat \<Rightarrow> nat" where
  "wait_ALRAWF flag k 0 = 0"
| "wait_ALRAWF flag k (Suc t) =
     (if flag k then Suc t else if t = 0 then 0 else wait_ALRAWF flag (Suc k) t)"


section \<open>Receive buffer and tick counter (Src/nvic.c, Src/timebase.c)\<close>

text \<open>
  The memory shared between the interrupt handlers and the main line.  The array
  \<^verbatim>\<open>uart_receive_buffer\<close> and its index are declared in uart.c, which is not among the
  sources; the array is taken to have \<^verbatim>\<open>SIZE_OF_INCOMING_DATA\<close> elements, so that
  the length of the list is that constant, and the index is a natural number.
  \<open>uart1_tx\<close> collects the bytes handed to \<^verbatim>\<open>uart1_transmit\<close>.
\<close>

record machine =
  current_tick :: "32 word"
  uart_receive_buffer :: string
  uart_receive_index :: nat
  uart1_tx :: string

definition tick_increment :: "machine \<Rightarrow> machine" where
  "tick_increment m = m \<lparr> current_tick := current_tick m + 1 \<rparr>"

definition SysTick_Handler :: "machine \<Rightarrow> machine" where
  "SysTick_Handler m = tick_increment m"

definition get_tick :: "machine \<Rightarrow> 32 word" where
  "get_tick m = current_tick m"

text \<open>
  \<^verbatim>\<open>USART1_IRQHandler\<close>.  The argument is \<open>None\<close> when RXNE is clear and the received
  byte \<^verbatim>\<open>USART1->RDR & 0xFF\<close> otherwise.  A store at an index that is not below the
  size of the array is a write out of bounds: the result is \<open>None\<close>.
\<close>

definition USART1_IRQHandler :: "char option \<Rightarrow> machine \<Rightarrow> machine option" where
  "USART1_IRQHandler rdr m =
    (case rdr of
       None \<Rightarrow> Some m
     | Some b \<Rightarrow>
         if uart_receive_index m < length (uart_receive_buffer m)
         then Some (m \<lparr> uart_receive_buffer := (uart_receive_buffer m)[uart_receive_index m := b],
                        uart_receive_index :=
                          (uart_receive_index m + 1) mod length (uart_receive_buffer m) \<rparr>)
         else None)"

text \<open>
  Interrupts run to completion between two steps of the main line.  A batch is the list
  of interrupts taken between two such steps, in order.
\<close>

datatype irq = SysTick | USART1 "char option"

fun run_irqs :: "irq list \<Rightarrow> machine \<Rightarrow> machine option" where
  "run_irqs [] m = Some m"
| "run_irqs (SysTick # es) m = run_irqs es (SysTick_Handler m)"
| "run_irqs (USART1 rdr # es) m =
     (case USART1_IRQHandler rdr m of None \<Rightarrow> None | Some m' \<Rightarrow> run_irqs es m')"

section \<open>Transaction engine (Src/wifi.c)\<close>

text \<open>The enumerators of \<^verbatim>\<open>WiFi_res_t\<close>, as the \<^verbatim>\<open>int\<close> values they have in C.\<close>

definition WIFI_OK :: int where "WIFI_OK = 0"
definition WIFI_FAIL :: int where "WIFI_FAIL = 1"
definition WIFI_TIMEOUT :: int where "WIFI_TIMEOUT = 2"

text \<open>
  A character array read as a C string: the bytes before the first NUL.  An array
  without a NUL is not a string, and a library function that scans it reads past its
  end; \<open>c_string\<close> is \<open>None\<close> there.
\<close>

definition c_string :: "string \<Rightarrow> string option" where
  "c_string a =
     (if CHR 0x00 \<in> set a then Some (takeWhile (\<lambda>c. c \<noteq> CHR 0x00) a) else None)"

text \<open>
  \<^verbatim>\<open>strstr\<close> on C strings: the rest of the haystack from the first occurrence of the
  needle on, or \<open>None\<close> for the null pointer.
\<close>

fun strstr :: "string \<Rightarrow> string \<Rightarrow> string option" where
  "strstr [] needle = (if needle = [] then Some [] else None)"
| "strstr (c # cs) needle =
     (if take (length needle) (c # cs) = needle then Some (c # cs) else strstr cs needle)"

text \<open>
  \<^verbatim>\<open>strncpy (dst, src, n)\<close> into an array that holds only NUL bytes and has more than
  \<open>n\<close> elements: the C string left in \<open>dst\<close>.  It reads at most \<open>n\<close> bytes of
  \<open>src\<close>.
\<close>

definition strncpy :: "string \<Rightarrow> nat \<Rightarrow> string" where
  "strncpy src n = take n (takeWhile (\<lambda>c. c \<noteq> CHR 0x00) src)"

text \<open>
  Modelled from the spec: \<^verbatim>\<open>uart1_transmit\<close> (uart.c is not among the sources); the
  outbound line carries the bytes of the command.
\<close>

definition uart1_transmit :: "string \<Rightarrow> machine \<Rightarrow> machine" where
  "uart1_transmit bytes m = m \<lparr> uart1_tx := uart1_tx m @ bytes \<rparr>"

text \<open>
  What a call of the main line comes to on a finite schedule of interrupt batches: it
  returns, or it is still in its polling loop when the schedule ends, or it has run into
  one of the two memory faults.
\<close>

datatype fault = WriteOutOfBounds | ScanUnterminated

datatype 'a exec = Returns 'a | Running | Fault fault

text \<open>
  Lines 81 to 97 of \<^verbatim>\<open>send_command\<close>: the optional extraction of fields from the
  captured text.  \<open>vsscanf\<close> is the C library function, a parameter: from the text,
  the format and the destinations of the variadic arguments to the destinations after
  the call.
\<close>

definition send_command_parse ::
  "(string \<Rightarrow> string \<Rightarrow> 'a \<Rightarrow> 'a) \<Rightarrow> string option \<Rightarrow> string option \<Rightarrow> string \<Rightarrow> 'a \<Rightarrow> 'a" where
  "send_command_parse vsscanf exp exp_parse response_buffer args =
    (case (exp, exp_parse) of
       (Some e, Some p) \<Rightarrow>
         (case strstr response_buffer e of
            None \<Rightarrow> args
          | Some exp_start \<Rightarrow> vsscanf (drop (length e) exp_start) p args)
     | _ \<Rightarrow> args)"

text \<open>
  The loop \<^verbatim>\<open>while (response < 0)\<close> of lines 62 to 101.  One batch of interrupts is
  consumed before each access of the main line to the shared memory: before
  \<^verbatim>\<open>get_tick\<close>, before \<^verbatim>\<open>strstr\<close> and, once the terminal token is found, before
  \<^verbatim>\<open>strncpy\<close>.  The result holds the returned \<^verbatim>\<open>response\<close>, the destinations of
  the variadic arguments, the machine and the batches not consumed.
\<close>

fun send_command_wait ::
  "(string \<Rightarrow> string \<Rightarrow> 'a \<Rightarrow> 'a) \<Rightarrow> string option \<Rightarrow> string option \<Rightarrow> string \<Rightarrow>
   32 word \<Rightarrow> 32 word \<Rightarrow> 'a \<Rightarrow> irq list list \<Rightarrow> machine \<Rightarrow>
   (int \<times> 'a \<times> machine \<times> irq list list) exec" where
  "send_command_wait vsscanf exp exp_parse exp_end delay start_time args [] m = Running"
| "send_command_wait vsscanf exp exp_parse exp_end delay start_time args (bt # rest) m =
    (case run_irqs bt m of
       None \<Rightarrow> Fault WriteOutOfBounds
     | Some m1 \<Rightarrow>
         if get_tick m1 - start_time \<ge> delay then Returns (WIFI_TIMEOUT, args, m1, rest)
         else
           (case rest of
              [] \<Rightarrow> Running
            | bs # rest' \<Rightarrow>
                (case run_irqs bs m1 of
                   None \<Rightarrow> Fault WriteOutOfBounds
                 | Some m2 \<Rightarrow>
                     (case c_string (uart_receive_buffer m2) of
                        None \<Rightarrow> Fault ScanUnterminated
                      | Some text \<Rightarrow>
                          (case strstr text exp_end of
                             None \<Rightarrow>
                               send_command_wait vsscanf exp exp_parse exp_end delay
                                 start_time args rest' m2
                           | Some found \<Rightarrow>
                               (case rest' of
                                  [] \<Rightarrow> Running
                                | bc # rest'' \<Rightarrow>
                                    (case run_irqs bc m2 of
                                       None \<Rightarrow> Fault WriteOutOfBounds
                                     | Some m3 \<Rightarrow>
                                         let response_buffer =
                                               strncpy (uart_receive_buffer m3)
                                                 (length (uart_receive_buffer m3) - 1)
                                         in Returns (WIFI_OK,
                                              send_command_parse vsscanf exp exp_parse
                                                response_buffer args,
                                              m3, rest''))))))))"

text \<open>
  Lines 44 to 54: the start time is read, the receive buffer is cleared, its index is
  reset and the command is transmitted with CR LF.  Batches \<open>b0\<close>, \<open>b1\<close> and
  \<open>b2\<close> are the interrupts taken before \<^verbatim>\<open>get_tick\<close>, before the \<^verbatim>\<open>memset\<close> of
  the receive buffer and before the reset of the index.
\<close>

definition send_command_begin ::
  "string \<Rightarrow> irq list \<Rightarrow> irq list \<Rightarrow> irq list \<Rightarrow> machine \<Rightarrow> (32 word \<times> machine) option" where
  "send_command_begin command b0 b1 b2 m =
    (case run_irqs b0 m of
       None \<Rightarrow> None
     | Some m0 \<Rightarrow>
         let start_time = get_tick m0 in
         (case run_irqs b1 m0 of
            None \<Rightarrow> None
          | Some m1 \<Rightarrow>
              (case run_irqs b2
                      (m1 \<lparr> uart_receive_buffer :=
                              replicate (length (uart_receive_buffer m1)) (CHR 0x00) \<rparr>) of
                 None \<Rightarrow> None
               | Some m2 \<Rightarrow>
                   Some (start_time,
                         uart1_transmit (command @ [CHR 0x0D, CHR 0x0A])
                           (m2 \<lparr> uart_receive_index := 0 \<rparr>)))))"

fun send_command ::
  "(string \<Rightarrow> string \<Rightarrow> 'a \<Rightarrow> 'a) \<Rightarrow> string \<Rightarrow> string option \<Rightarrow> string option \<Rightarrow> string \<Rightarrow>
   nat \<Rightarrow> 32 word \<Rightarrow> 'a \<Rightarrow> irq list list \<Rightarrow> machine \<Rightarrow>
   (int \<times> 'a \<times> machine \<times> irq list list) exec" where
  "send_command vsscanf command exp exp_parse exp_end num_of_exp delay args
       (b0 # b1 # b2 # polls) m =
    (case send_command_begin command b0 b1 b2 m of
       None \<Rightarrow> Fault WriteOutOfBounds
     | Some (start_time, m') \<Rightarrow>
         send_command_wait vsscanf exp exp_parse exp_end delay start_time args polls m')"
| "send_command vsscanf command exp exp_parse exp_end num_of_exp delay args sched m = Running"

text \<open>
  \<^verbatim>\<open>WiFi_check\<close>, \<^verbatim>\<open>WiFi_power_down\<close> and \<^verbatim>\<open>FSM_power_down\<close>.  They pass no
  variadic argument, so the destinations are the unit value.
\<close>

definition WiFi_check ::
  "(string \<Rightarrow> string \<Rightarrow> unit \<Rightarrow> unit) \<Rightarrow> irq list list \<Rightarrow> machine \<Rightarrow>
   (int \<times> machine \<times> irq list list) exec" where
  "WiFi_check vsscanf sched m =
    (case send_command vsscanf ''AT'' (Some ''OK'') None ''OK'' 0 1000 () sched m of
       Returns (result_code, args, m', rest) \<Rightarrow>
         Returns (if result_code \<noteq> WIFI_OK then WIFI_FAIL else WIFI_OK, m', rest)
     | Running \<Rightarrow> Running
     | Fault f \<Rightarrow> Fault f)"



section \<open>Observations on a schedule\<close>

text \<open>
  The machine after the first \<open>n\<close> batches of a schedule.  When no iteration has yet
  left the polling loop, iteration \<open>j\<close> reads the tick counter after \<open>2 * j + 1\<close>
  batches and scans the receive buffer after \<open>2 * j + 2\<close> batches; \<open>elapsed_at\<close> is
  the elapsed tick count of that read and \<open>scan_at\<close> tells whether that scan finds the
  terminal token (\<open>None\<close> when the buffer holds no NUL).
\<close>

definition machine_at :: "irq list list \<Rightarrow> machine \<Rightarrow> nat \<Rightarrow> machine option" where
  "machine_at polls m n = run_irqs (concat (take n polls)) m"

definition elapsed_at :: "32 word \<Rightarrow> irq list list \<Rightarrow> machine \<Rightarrow> nat \<Rightarrow> 32 word option" where
  "elapsed_at start_time polls m j =
     map_option (\<lambda>m'. get_tick m' - start_time) (machine_at polls m (2 * j + 1))"

definition scan_at :: "string \<Rightarrow> irq list list \<Rightarrow> machine \<Rightarrow> nat \<Rightarrow> bool option" where
  "scan_at exp_end polls m j =
    (case machine_at polls m (2 * j + 2) of
       None \<Rightarrow> None
     | Some m' \<Rightarrow>
         (case c_string (uart_receive_buffer m') of
            None \<Rightarrow> None
          | Some text \<Rightarrow> Some (strstr text exp_end \<noteq> None)))"

text \<open>The text that \<^verbatim>\<open>strncpy\<close> leaves in \<^verbatim>\<open>response_buffer\<close>.\<close>

definition captured :: "machine \<Rightarrow> string" where
  "captured m = strncpy (uart_receive_buffer m) (length (uart_receive_buffer m) - 1)"

text \<open>The failure and success edges of the table, and the path along failure edges.\<close>

definition on_failure :: "states \<Rightarrow> states" where
  "on_failure cs = next_state_on_failure (state_table ! state_value cs)"


fun failure_path :: "states \<Rightarrow> nat \<Rightarrow> states list" where
  "failure_path cs 0 = []"
| "failure_path cs (Suc n) = cs # failure_path (on_failure cs) n"

text \<open>
  The world after the handlers of a list have been called one after the other, each on
  the world the one before it left, whatever they return.
\<close>

fun call_sequence ::
  "(fn_ptr \<Rightarrow> 'w \<Rightarrow> (int \<times> 'w) option) \<Rightarrow> fn_ptr list \<Rightarrow> 'w \<Rightarrow> 'w option" where
  "call_sequence call [] w = Some w"
| "call_sequence call (f # fs) w =
     (case call f w of
        None \<Rightarrow> None
      | Some (result, w') \<Rightarrow> call_sequence call fs w')"

text \<open>Times of day, and the second of the day of a time.\<close>

definition valid_time :: "nat \<times> nat \<times> nat \<Rightarrow> bool" where
  "valid_time t = (case t of (h, m, s) \<Rightarrow> h \<le> 23 \<and> m \<le> 59 \<and> s \<le> 59)"

definition seconds_of_day :: "nat \<times> nat \<times> nat \<Rightarrow> nat" where
  "seconds_of_day t = (case t of (h, m, s) \<Rightarrow> 3600 * h + 60 * m + s)"

definition carry_time :: "nat \<Rightarrow> nat \<Rightarrow> nat \<Rightarrow> nat \<times> nat \<times> nat" where
  "carry_time ah am as =
     (let (as, am) = (if as \<ge> 60 then (as - 60, am + 1) else (as, am));
          (am, ah) = (if am \<ge> 60 then (am - 60, ah + 1) else (am, ah));
          ah = (if ah \<ge> 24 then ah - 24 else ah)
      in (ah, am, as))"

text \<open>The interrupts of a sequence of received bytes, one interrupt for each byte.\<close>

definition rx_bytes :: "string \<Rightarrow> irq list" where
  "rx_bytes bs = map (\<lambda>b. USART1 (Some b)) bs"

text \<open>
  Two handler assignments on a world that only counts the handler calls made so far:
  every call succeeds, and every call fails.
\<close>

definition always_ok :: "fn_ptr \<Rightarrow> nat \<Rightarrow> (int \<times> nat) option" where
  "always_ok f n = Some (0, Suc n)"

definition always_fail :: "fn_ptr \<Rightarrow> nat \<Rightarrow> (int \<times> nat) option" where
  "always_fail f n = Some (-1, Suc n)"

section \<open>The main loop (Src/main.c)\<close>



section \<open>Concrete machines and schedules\<close>

text \<open>
  A machine with a cleared receive buffer of \<open>n\<close> bytes; a machine at tick 40 whose
  buffer of 8 bytes still holds an earlier answer; a modem that answers \<^verbatim>\<open>OK\<close>, CR,
  LF during the second iteration of the polling loop; a modem that stays silent while
  the tick counter runs; a modem whose \<^verbatim>\<open>OK\<close>, CR, LF arrives after the scan of the
  first iteration and before the tick that the second iteration reads; and an RTC whose
  alarm register never becomes writable.
\<close>

definition cleared_machine :: "nat \<Rightarrow> machine" where
  "cleared_machine n = \<lparr> current_tick = 0, uart_receive_buffer = replicate n (CHR 0x00),
                         uart_receive_index = 0, uart1_tx = [] \<rparr>"

definition polls_ok :: "irq list list" where
  "polls_ok = [[SysTick], [], [SysTick], rx_bytes [CHR ''O'', CHR ''K'', CHR 0x0D, CHR 0x0A], []]"

definition polls_silent :: "nat \<Rightarrow> irq list list" where
  "polls_silent n = [[SysTick], [], replicate n SysTick, []]"

definition stale_machine :: machine where
  "stale_machine =
     \<lparr> current_tick = 40,
       uart_receive_buffer = [CHR ''r'', CHR ''e'', CHR ''a'', CHR ''d'', CHR ''y'',
                              CHR 0x0D, CHR 0x0A, CHR 0x00],
       uart_receive_index = 7, uart1_tx = [] \<rparr>"

definition polls_late :: "irq list list" where
  "polls_late =
     [[SysTick], [], rx_bytes [CHR ''O'', CHR ''K'', CHR 0x0D, CHR 0x0A] @ [SysTick], []]"


section \<open>The workflow state machine: proofs\<close>

lemmas server_update_loop_numeral =
  server_update_loop.simps(2) [of "pred_numeral k", folded numeral_eq_Suc] for k

lemma state_value_less: "cs \<noteq> STOP \<Longrightarrow> state_value cs < NUM_OF_STATES"
  by (cases cs) (simp_all add: NUM_OF_STATES_def)

lemma on_failure_not_STOP: "cs \<noteq> STOP \<Longrightarrow> on_failure cs \<noteq> STOP"
  by (cases cs) (simp_all add: on_failure_def state_table_def)

lemma unat_budget_step:
  fixes M r :: "32 word"
  assumes "unat (M - r) = Suc n"
  shows "unat (M - (r + 1)) = n" and "r \<noteq> M"
proof -
  have nz: "M - r \<noteq> 0" using assms by (metis Zero_not_Suc unat_0)
  then show "r \<noteq> M" by auto
  have e: "M - (r + 1) = (M - r) - 1" by simp
  show "unat (M - (r + 1)) = n"
    unfolding e using assms unat_minus_one [OF nz] by simp
qed

lemma loop_failure_step:
  assumes "cs \<noteq> STOP"
    and "call (state_function (state_table ! state_value cs)) w = Some (-1, w')"
    and "r \<noteq> M"
  shows "server_update_loop (Suc fuel) M call cs r tr w =
         server_update_loop fuel M call (on_failure cs) (r + 1) (tr @ [cs]) w'"
  using assms state_value_less [OF assms(1)] on_failure_not_STOP [OF assms(1)]
  by (simp add: Let_def on_failure_def)

lemma loop_exhausted_step:
  assumes "cs \<noteq> STOP"
    and "call (state_function (state_table ! state_value cs)) w = Some (result, w')"
  shows "server_update_loop (Suc fuel) M call cs M tr w =
         Some \<lparr> ending = RetriesExhausted, current_state = cs, retries = M,
                 dispatched = tr @ [cs], world = w' \<rparr>"
  using assms state_value_less [OF assms(1)]
  by (simp add: Let_def)

lemma call_sequence_snoc:
  "call_sequence call (fs @ [f]) w =
     (case call_sequence call fs w of
        None \<Rightarrow> None
      | Some w1 \<Rightarrow> (case call f w1 of None \<Rightarrow> None | Some (result, w2) \<Rightarrow> Some w2))"
  by (induction fs arbitrary: w) (auto split: option.splits)

lemma all_fail_loop:
  assumes fail: "\<forall>f w. \<exists>w'. call f w = Some (-1, w')"
  shows "cs \<noteq> STOP \<Longrightarrow> unat (M - r) = n \<Longrightarrow> n < fuel \<Longrightarrow>
         call_sequence call (map (\<lambda>s. state_function (state_table ! state_value s)) tr) w0
           = Some w \<Longrightarrow>
         \<exists>run. server_update_loop fuel M call cs r tr w = Some run \<and>
               ending run = RetriesExhausted \<and> retries run = M \<and>
               current_state run = last (failure_path cs (Suc n)) \<and>
               dispatched run = tr @ failure_path cs (Suc n) \<and>
               call_sequence call
                 (map (\<lambda>s. state_function (state_table ! state_value s)) (dispatched run)) w0
                 = Some (world run)"
proof (induction n arbitrary: cs r tr w fuel)
  case 0
  then have rM: "r = M" by (simp add: unat_eq_0)
  obtain k where k: "fuel = Suc k" using 0(3) by (cases fuel) auto
  obtain w' where c: "call (state_function (state_table ! state_value cs)) w = Some (-1, w')"
    using fail by blast
  from loop_exhausted_step [of cs call w "-1" w' k M tr, OF 0(1) c] show ?case
    using rM k 0(4) c by (simp add: call_sequence_snoc)
next
  case (Suc n)
  obtain k where k: "fuel = Suc k" and kn: "n < k" using Suc.prems(3) by (cases fuel) auto
  obtain w' where c: "call (state_function (state_table ! state_value cs)) w = Some (-1, w')"
    using fail by blast
  note b = unat_budget_step [OF Suc.prems(2)]
  have step: "server_update_loop fuel M call cs r tr w =
         server_update_loop k M call (on_failure cs) (r + 1) (tr @ [cs]) w'"
    unfolding k using Suc.prems(1) c b(2) by (rule loop_failure_step)
  have seq: "call_sequence call
               (map (\<lambda>s. state_function (state_table ! state_value s)) (tr @ [cs])) w0 = Some w'"
    using Suc.prems(4) c by (simp add: call_sequence_snoc)
  from Suc.IH [OF on_failure_not_STOP [OF Suc.prems(1)] b(1) kn seq]
  show ?case unfolding step by simp
qed

lemma upt_0_Suc: "[0..<Suc n] = 0 # map Suc [0..<n]"
  by (simp only: upt_conv_Cons [OF zero_less_Suc] map_Suc_upt)

lemma failure_path_alternates:
  "failure_path WIFI_INIT n = map (\<lambda>i. if even i then WIFI_INIT else POWER_DOWN) [0..<n] \<and>
   failure_path POWER_DOWN n = map (\<lambda>i. if even i then POWER_DOWN else WIFI_INIT) [0..<n]"
proof (induction n)
  case 0
  show ?case by simp
next
  case (Suc n)
  have W: "on_failure WIFI_INIT = POWER_DOWN" and P: "on_failure POWER_DOWN = WIFI_INIT"
    by (simp_all add: on_failure_def state_table_def)
  show ?case
    unfolding failure_path.simps W P upt_0_Suc
    using Suc by (simp add: comp_def)
qed

lemma handlers_alternate:
  "map (\<lambda>s. state_function (state_table ! state_value s))
       (map (\<lambda>i. if even i then WIFI_INIT else POWER_DOWN) [0..<n]) =
   map (\<lambda>i. if even i then Fn_FSM_wifi_connection else Fn_FSM_power_down) [0..<n]"
  by (rule nth_equalityI) (simp_all add: state_table_def)

lemma loop_in_range:
  "cs \<noteq> STOP \<Longrightarrow> \<forall>s\<in>set tr. state_value s < NUM_OF_STATES \<Longrightarrow>
   server_update_loop fuel M call cs r tr w = Some run \<Longrightarrow>
   ending run \<noteq> TableIndexOutOfRange \<and>
   (\<forall>s\<in>set (dispatched run). state_value s < NUM_OF_STATES)"
proof (induction fuel arbitrary: cs r tr w)
  case 0
  then show ?case by simp
next
  case (Suc fuel)
  have idx: "state_value cs < NUM_OF_STATES"
    using Suc.prems(1) by (rule state_value_less)
  obtain result w' where
    c: "call (state_function (state_table ! state_value cs)) w = Some (result, w')"
    using Suc.prems(3) idx by (auto simp: Let_def split: option.splits)
  have tr': "\<forall>s\<in>set (tr @ [cs]). state_value s < NUM_OF_STATES"
    using Suc.prems(2) idx by simp
  show ?case
  proof (cases "r = M")
    case True
    then have "run = \<lparr> ending = RetriesExhausted, current_state = cs, retries = r,
                     dispatched = tr @ [cs], world = w' \<rparr>"
      using Suc.prems(3) idx c by (simp add: Let_def)
    then show ?thesis using tr' by simp
  next
    case False
    define cs' where
      "cs' = (if result = -1 then next_state_on_failure (state_table ! state_value cs)
              else if result = 0 then next_state_on_success (state_table ! state_value cs)
              else cs)"
    define r' where "r' = (if result = -1 then r + 1 else r)"
    show ?thesis
    proof (cases "cs' = STOP")
      case True
      then have "run = \<lparr> ending = ReachedStop, current_state = cs', retries = r',
                              dispatched = tr @ [cs], world = w' \<rparr>"
        using Suc.prems(3) idx c False by (simp add: Let_def cs'_def r'_def)
      then show ?thesis using tr' by simp
    next
      case ne: False
      then have "server_update_loop fuel M call cs' r' (tr @ [cs]) w' = Some run"
        using Suc.prems(3) idx c False by (simp add: Let_def cs'_def r'_def)
      from Suc.IH [OF ne tr' this] show ?thesis .
    qed
  qed
qed

text \<open>
  Claim C1, as the code has it.  In whatever state and for whatever handlers, the handler
  of the current state is called first; the retry counter is compared with the maximum
  after that call and before its result is used.  When the counter equals the maximum the
  run stops at once, with the state and the counter as they were: the result of the
  handler just called, whatever it is, is dropped.  Otherwise a failure is counted and
  the failure edge of the state is taken.  So, when every handler call fails, the run
  from \<^verbatim>\<open>WIFI_INIT\<close> makes exactly \<open>MAXIMUM_RETRIES + 1\<close> handler calls,
  \<^verbatim>\<open>FSM_wifi_connection\<close> and \<^verbatim>\<open>FSM_power_down\<close> in turn, in the states
  \<^verbatim>\<open>WIFI_INIT\<close> and \<^verbatim>\<open>POWER_DOWN\<close> in turn, counts \<open>MAXIMUM_RETRIES\<close> of these
  failures, and ends by the \<^verbatim>\<open>break\<close> in the state of its last call, without reaching
  \<^verbatim>\<open>STOP\<close>.  The loop returns as soon as the fuel exceeds the maximum.
\<close>

theorem server_update_all_fail:
  "(\<forall>cs tr w0 result w1 n. cs \<noteq> STOP \<longrightarrow>
      call (state_function (state_table ! state_value cs)) w0 = Some (result, w1) \<longrightarrow>
      server_update_loop (Suc n) MAXIMUM_RETRIES call cs MAXIMUM_RETRIES tr w0 =
        Some \<lparr> ending = RetriesExhausted, current_state = cs, retries = MAXIMUM_RETRIES,
               dispatched = tr @ [cs], world = w1 \<rparr>) \<and>
   (\<forall>cs r tr w0 w1 n. cs \<noteq> STOP \<longrightarrow> r \<noteq> MAXIMUM_RETRIES \<longrightarrow>
      call (state_function (state_table ! state_value cs)) w0 = Some (-1, w1) \<longrightarrow>
      server_update_loop (Suc n) MAXIMUM_RETRIES call cs r tr w0 =
        server_update_loop n MAXIMUM_RETRIES call
          (next_state_on_failure (state_table ! state_value cs)) (r + 1) (tr @ [cs]) w1) \<and>
   ((\<forall>f w. \<exists>w'. call f w = Some (-1, w')) \<and> unat MAXIMUM_RETRIES < fuel \<longrightarrow>
    (\<exists>run. server_update fuel MAXIMUM_RETRIES call w = Some run \<and>
           ending run = RetriesExhausted \<and> retries run = MAXIMUM_RETRIES \<and>
           current_state run =
             (if even (unat MAXIMUM_RETRIES) then WIFI_INIT else POWER_DOWN) \<and>
           current_state run \<noteq> STOP \<and>
           dispatched run =
             map (\<lambda>i. if even i then WIFI_INIT else POWER_DOWN)
                 [0..<unat MAXIMUM_RETRIES + 1] \<and>
           call_sequence call
             (map (\<lambda>i. if even i then Fn_FSM_wifi_connection else Fn_FSM_power_down)
                  [0..<unat MAXIMUM_RETRIES + 1]) w = Some (world run)))"
proof (intro conjI allI impI)
  fix cs :: states and tr :: "states list" and w0 w1 :: 'a and result :: int and n :: nat
  assume cs: "cs \<noteq> STOP"
    and c: "call (state_function (state_table ! state_value cs)) w0 = Some (result, w1)"
  from cs c
  show "server_update_loop (Suc n) MAXIMUM_RETRIES call cs MAXIMUM_RETRIES tr w0 =
          Some \<lparr> ending = RetriesExhausted, current_state = cs, retries = MAXIMUM_RETRIES,
                 dispatched = tr @ [cs], world = w1 \<rparr>"
    by (rule loop_exhausted_step)
next
  fix cs :: states and r :: "32 word" and tr :: "states list" and w0 w1 :: 'a and n :: nat
  assume cs: "cs \<noteq> STOP" and r: "r \<noteq> MAXIMUM_RETRIES"
    and c: "call (state_function (state_table ! state_value cs)) w0 = Some (-1, w1)"
  have "server_update_loop (Suc n) MAXIMUM_RETRIES call cs r tr w0 =
          server_update_loop n MAXIMUM_RETRIES call (on_failure cs) (r + 1) (tr @ [cs]) w1"
    using cs c r by (rule loop_failure_step)
  then show "server_update_loop (Suc n) MAXIMUM_RETRIES call cs r tr w0 =
          server_update_loop n MAXIMUM_RETRIES call
            (next_state_on_failure (state_table ! state_value cs)) (r + 1) (tr @ [cs]) w1"
    unfolding on_failure_def .
next
  assume h: "(\<forall>f w. \<exists>w'. call f w = Some (-1, w')) \<and> unat MAXIMUM_RETRIES < fuel"
  then have fail: "\<forall>f w. \<exists>w'. call f w = Some (-1, w')" and fuel: "unat MAXIMUM_RETRIES < fuel"
    by simp_all
  have c0: "call_sequence call
              (map (\<lambda>s. state_function (state_table ! state_value s)) []) w = Some w"
    by simp
  have u: "unat (MAXIMUM_RETRIES - 0) = unat MAXIMUM_RETRIES" by simp
  have "WIFI_INIT \<noteq> STOP" by simp
  from all_fail_loop [OF fail this u fuel c0]
  obtain run where run: "server_update_loop fuel MAXIMUM_RETRIES call WIFI_INIT 0 [] w = Some run"
     "ending run = RetriesExhausted" "retries run = MAXIMUM_RETRIES"
     "current_state run = last (failure_path WIFI_INIT (Suc (unat MAXIMUM_RETRIES)))"
     "dispatched run = [] @ failure_path WIFI_INIT (Suc (unat MAXIMUM_RETRIES))"
     "call_sequence call
        (map (\<lambda>s. state_function (state_table ! state_value s)) (dispatched run)) w
        = Some (world run)"
    by blast
  have fp: "failure_path WIFI_INIT (Suc (unat MAXIMUM_RETRIES)) =
            map (\<lambda>i. if even i then WIFI_INIT else POWER_DOWN) [0..<unat MAXIMUM_RETRIES + 1]"
    using failure_path_alternates [of "Suc (unat MAXIMUM_RETRIES)"] by simp
  have d: "dispatched run =
           map (\<lambda>i. if even i then WIFI_INIT else POWER_DOWN) [0..<unat MAXIMUM_RETRIES + 1]"
    using run(5) unfolding fp by simp
  have cur: "current_state run = (if even (unat MAXIMUM_RETRIES) then WIFI_INIT else POWER_DOWN)"
    using run(4) unfolding fp by simp
  have seq: "call_sequence call
               (map (\<lambda>i. if even i then Fn_FSM_wifi_connection else Fn_FSM_power_down)
                    [0..<unat MAXIMUM_RETRIES + 1]) w = Some (world run)"
    using run(6) unfolding d handlers_alternate .
  have ne: "current_state run \<noteq> STOP" unfolding cur by simp
  show "\<exists>run. server_update fuel MAXIMUM_RETRIES call w = Some run \<and>
               ending run = RetriesExhausted \<and> retries run = MAXIMUM_RETRIES \<and>
               current_state run =
                 (if even (unat MAXIMUM_RETRIES) then WIFI_INIT else POWER_DOWN) \<and>
               current_state run \<noteq> STOP \<and>
               dispatched run =
                 map (\<lambda>i. if even i then WIFI_INIT else POWER_DOWN)
                     [0..<unat MAXIMUM_RETRIES + 1] \<and>
               call_sequence call
                 (map (\<lambda>i. if even i then Fn_FSM_wifi_connection else Fn_FSM_power_down)
                      [0..<unat MAXIMUM_RETRIES + 1]) w = Some (world run)"
    unfolding server_update_def
    using run(1) run(2) run(3) cur ne d seq by blast
qed

theorem server_update_all_fail_witness:
  "((\<forall>f w. \<exists>w'. always_fail f w = Some (-1, w')) \<and> unat MAX_RETRIES < 6) \<and>
   (\<exists>run. server_update 6 MAX_RETRIES always_fail 0 = Some run \<and>
          ending run = RetriesExhausted \<and> retries run = MAX_RETRIES \<and>
          current_state run = POWER_DOWN \<and>
          dispatched run =
            [WIFI_INIT, POWER_DOWN, WIFI_INIT, POWER_DOWN, WIFI_INIT, POWER_DOWN] \<and>
          call_sequence always_fail
            [Fn_FSM_wifi_connection, Fn_FSM_power_down, Fn_FSM_wifi_connection,
             Fn_FSM_power_down, Fn_FSM_wifi_connection, Fn_FSM_power_down] 0
            = Some (world run) \<and>
          world run = 6) \<and>
   (POWER_DOWN \<noteq> STOP \<and>
    always_ok (state_function (state_table ! state_value POWER_DOWN)) 0 = Some (0, 1) \<and>
    server_update_loop (Suc 0) MAX_RETRIES always_ok POWER_DOWN MAX_RETRIES [] 0 =
      Some \<lparr> ending = RetriesExhausted, current_state = POWER_DOWN, retries = MAX_RETRIES,
             dispatched = [POWER_DOWN], world = 1 \<rparr>) \<and>
   (RECEIVE_DATA \<noteq> STOP \<and> 0 \<noteq> MAX_RETRIES \<and>
    always_fail (state_function (state_table ! state_value RECEIVE_DATA)) 0 = Some (-1, 1) \<and>
    server_update_loop (Suc 1) MAX_RETRIES always_fail RECEIVE_DATA 0 [] 0 =
      server_update_loop 1 MAX_RETRIES always_fail SEND_DATA (0 + 1) [RECEIVE_DATA] 1)"
proof -
  have h1: "\<forall>f w. \<exists>w'. always_fail f w = Some (-1, w')" by (simp add: always_fail_def)
  have h2: "unat MAX_RETRIES < 6" by (simp add: MAX_RETRIES_def)
  have u: "[0..<unat MAX_RETRIES + 1] = [0, 1, 2, 3, 4, 5]"
    by (simp add: MAX_RETRIES_def upt_rec)
  have e: "even (unat MAX_RETRIES) = False" by (simp add: MAX_RETRIES_def)
  have cs: "call_sequence always_fail
            [Fn_FSM_wifi_connection, Fn_FSM_power_down, Fn_FSM_wifi_connection,
             Fn_FSM_power_down, Fn_FSM_wifi_connection, Fn_FSM_power_down] 0 = Some 6"
    by (simp add: always_fail_def)
  note t = server_update_all_fail [of always_fail MAX_RETRIES 6 0]
  from t [THEN conjunct2, THEN conjunct2] h1 h2 obtain run where
    r: "server_update 6 MAX_RETRIES always_fail 0 = Some run"
       "ending run = RetriesExhausted" "retries run = MAX_RETRIES"
       "current_state run = (if even (unat MAX_RETRIES) then WIFI_INIT else POWER_DOWN)"
       "dispatched run =
          map (\<lambda>i. if even i then WIFI_INIT else POWER_DOWN) [0..<unat MAX_RETRIES + 1]"
       "call_sequence always_fail
          (map (\<lambda>i. if even i then Fn_FSM_wifi_connection else Fn_FSM_power_down)
               [0..<unat MAX_RETRIES + 1]) 0 = Some (world run)"
    by blast
  have m1: "map (\<lambda>i. if even i then WIFI_INIT else POWER_DOWN) [0, 1, 2, 3, 4, 5::nat] =
            [WIFI_INIT, POWER_DOWN, WIFI_INIT, POWER_DOWN, WIFI_INIT, POWER_DOWN]"
    by simp
  have m2: "map (\<lambda>i. if even i then Fn_FSM_wifi_connection else Fn_FSM_power_down)
              [0, 1, 2, 3, 4, 5::nat] =
            [Fn_FSM_wifi_connection, Fn_FSM_power_down, Fn_FSM_wifi_connection,
             Fn_FSM_power_down, Fn_FSM_wifi_connection, Fn_FSM_power_down]"
    by simp
  have r4: "current_state run = POWER_DOWN" using r(4) unfolding e by simp
  have r5: "dispatched run =
            [WIFI_INIT, POWER_DOWN, WIFI_INIT, POWER_DOWN, WIFI_INIT, POWER_DOWN]"
    using r(5) unfolding u m1 .
  have r6: "Some 6 = Some (world run)" using r(6) unfolding u m2 cs .
  then have r7: "world run = 6" by simp
  have r8: "call_sequence always_fail
            [Fn_FSM_wifi_connection, Fn_FSM_power_down, Fn_FSM_wifi_connection,
             Fn_FSM_power_down, Fn_FSM_wifi_connection, Fn_FSM_power_down] 0
            = Some (world run)"
    unfolding cs by (rule r6)
  from r(1) r(2) r(3) r4 r5 r8 r7
  have c1: "\<exists>run. server_update 6 MAX_RETRIES always_fail 0 = Some run \<and>
          ending run = RetriesExhausted \<and> retries run = MAX_RETRIES \<and>
          current_state run = POWER_DOWN \<and>
          dispatched run =
            [WIFI_INIT, POWER_DOWN, WIFI_INIT, POWER_DOWN, WIFI_INIT, POWER_DOWN] \<and>
          call_sequence always_fail
            [Fn_FSM_wifi_connection, Fn_FSM_power_down, Fn_FSM_wifi_connection,
             Fn_FSM_power_down, Fn_FSM_wifi_connection, Fn_FSM_power_down] 0
            = Some (world run) \<and>
          world run = 6"
    by blast
  have s1: "POWER_DOWN \<noteq> STOP" and s2: "RECEIVE_DATA \<noteq> STOP" by simp_all
  have m: "(0::32 word) \<noteq> MAX_RETRIES" by (simp add: MAX_RETRIES_def)
  have k1: "always_ok (state_function (state_table ! state_value POWER_DOWN)) 0 = Some (0, 1)"
    by (simp add: always_ok_def)
  have k2: "always_fail (state_function (state_table ! state_value RECEIVE_DATA)) 0 = Some (-1, 1)"
    by (simp add: always_fail_def)
  from server_update_all_fail [of always_ok MAX_RETRIES 0 0, THEN conjunct1] s1 k1
  have a: "server_update_loop (Suc 0) MAX_RETRIES always_ok POWER_DOWN MAX_RETRIES [] 0 =
      Some \<lparr> ending = RetriesExhausted, current_state = POWER_DOWN, retries = MAX_RETRIES,
             dispatched = [] @ [POWER_DOWN], world = 1 \<rparr>"
    by blast
  have ap1: "[] @ [POWER_DOWN] = [POWER_DOWN]" by simp
  have c2: "server_update_loop (Suc 0) MAX_RETRIES always_ok POWER_DOWN MAX_RETRIES [] 0 =
      Some \<lparr> ending = RetriesExhausted, current_state = POWER_DOWN, retries = MAX_RETRIES,
             dispatched = [POWER_DOWN], world = 1 \<rparr>"
    using a unfolding ap1 .
  from t [THEN conjunct2, THEN conjunct1] s2 m k2
  have b: "server_update_loop (Suc 1) MAX_RETRIES always_fail RECEIVE_DATA 0 [] 0 =
          server_update_loop 1 MAX_RETRIES always_fail
            (next_state_on_failure (state_table ! state_value RECEIVE_DATA)) (0 + 1)
            ([] @ [RECEIVE_DATA]) 1"
    by blast
  have nx: "next_state_on_failure (state_table ! state_value RECEIVE_DATA) = SEND_DATA"
    by (simp add: state_table_def)
  have ap: "[] @ [RECEIVE_DATA] = [RECEIVE_DATA]" by simp
  have c3: "server_update_loop (Suc 1) MAX_RETRIES always_fail RECEIVE_DATA 0 [] 0 =
      server_update_loop 1 MAX_RETRIES always_fail SEND_DATA (0 + 1) [RECEIVE_DATA] 1"
    using b unfolding nx ap .
  from h1 h2 c1 s1 k1 c2 s2 m k2 c3 show ?thesis by (intro conjI)
qed

text \<open>
  Claim C1, as stated, fails.  With the maximum 5 of main.c and every handler call
  failing, the world counts six handler calls, all failures, where the claim says five;
  and with the maximum 0 the handler of \<^verbatim>\<open>WIFI_INIT\<close> is still called once, so the
  budget is not checked before the handler is executed.
\<close>

theorem server_update_all_fail_counterexample:
  "server_update 6 MAX_RETRIES always_fail 0 =
     Some \<lparr> ending = RetriesExhausted, current_state = POWER_DOWN, retries = 5,
            dispatched = [WIFI_INIT, POWER_DOWN, WIFI_INIT, POWER_DOWN, WIFI_INIT, POWER_DOWN],
            world = 6 \<rparr> \<and>
   server_update 1 0 always_fail 0 =
     Some \<lparr> ending = RetriesExhausted, current_state = WIFI_INIT, retries = 0,
            dispatched = [WIFI_INIT], world = 1 \<rparr>"
  by (simp add: server_update_def MAX_RETRIES_def always_fail_def state_table_def
        NUM_OF_STATES_def Let_def server_update_loop_numeral)

text \<open>
  Claim C7, as the code has it.  When every handler call succeeds and the maximum is not
  zero (main.c sets 5), the run from \<^verbatim>\<open>WIFI_INIT\<close> dispatches the seven states in the
  order of the table, calls the seven handlers once each in that order, each on the
  world the one before it left, and ends in \<^verbatim>\<open>STOP\<close> with the retry counter 0; seven
  units of fuel are enough.
\<close>

theorem server_update_all_succeed:
  assumes "\<forall>f w. \<exists>w'. call f w = Some (0, w')" and "MAXIMUM_RETRIES \<noteq> 0" and "7 \<le> fuel"
  shows "\<exists>w'. call_sequence call
                [Fn_FSM_wifi_connection, Fn_FSM_read_time, Fn_FSM_open_connection,
                 Fn_FSM_send_data, Fn_FSM_receive_data, Fn_FSM_close_connection,
                 Fn_FSM_power_down] w = Some w' \<and>
              server_update fuel MAXIMUM_RETRIES call w =
                Some \<lparr> ending = ReachedStop, current_state = STOP, retries = 0,
                       dispatched = [WIFI_INIT, READ_TIME, OPEN_CONNECTION, SEND_DATA,
                                     RECEIVE_DATA, CLOSE_CONNECTION, POWER_DOWN],
                       world = w' \<rparr>"
proof -
  from assms(1) obtain g where g: "\<And>f w. call f w = Some (0, g f w)" by metis
  obtain k where k: "fuel = Suc (Suc (Suc (Suc (Suc (Suc (Suc k))))))"
  proof -
    from assms(3) obtain j where "fuel = 7 + j" by (auto simp: le_iff_add)
    then have "fuel = Suc (Suc (Suc (Suc (Suc (Suc (Suc j))))))" by simp
    then show ?thesis by (rule that)
  qed
  have M': "0 \<noteq> MAXIMUM_RETRIES" using assms(2) by simp
  show ?thesis
    unfolding server_update_def k
    by (simp add: g M' state_table_def NUM_OF_STATES_def Let_def)
qed

theorem server_update_all_succeed_witness:
  "((\<forall>f w. \<exists>w'. always_ok f w = Some (0, w')) \<and> MAX_RETRIES \<noteq> 0 \<and> (7::nat) \<le> 7) \<and>
   call_sequence always_ok
     [Fn_FSM_wifi_connection, Fn_FSM_read_time, Fn_FSM_open_connection,
      Fn_FSM_send_data, Fn_FSM_receive_data, Fn_FSM_close_connection,
      Fn_FSM_power_down] 0 = Some 7 \<and>
   server_update 7 MAX_RETRIES always_ok 0 =
     Some \<lparr> ending = ReachedStop, current_state = STOP, retries = 0,
            dispatched = [WIFI_INIT, READ_TIME, OPEN_CONNECTION, SEND_DATA,
                          RECEIVE_DATA, CLOSE_CONNECTION, POWER_DOWN],
            world = 7 \<rparr>"
proof -
  have h1: "\<forall>f w. \<exists>w'. always_ok f w = Some (0, w')" by (simp add: always_ok_def)
  have h2: "MAX_RETRIES \<noteq> 0" by (simp add: MAX_RETRIES_def)
  have h3: "(7::nat) \<le> 7" by simp
  have s: "call_sequence always_ok
     [Fn_FSM_wifi_connection, Fn_FSM_read_time, Fn_FSM_open_connection,
      Fn_FSM_send_data, Fn_FSM_receive_data, Fn_FSM_close_connection,
      Fn_FSM_power_down] 0 = Some 7"
    by (simp add: always_ok_def)
  from server_update_all_succeed [OF h1 h2 h3, of 0]
  have c: "server_update 7 MAX_RETRIES always_ok 0 =
     Some \<lparr> ending = ReachedStop, current_state = STOP, retries = 0,
            dispatched = [WIFI_INIT, READ_TIME, OPEN_CONNECTION, SEND_DATA,
                          RECEIVE_DATA, CLOSE_CONNECTION, POWER_DOWN],
            world = 7 \<rparr>"
    unfolding s by simp
  from h1 h2 h3 s c show ?thesis by (intro conjI)
qed

text \<open>
  Claim C7, as stated, fails when the maximum is zero: the retry counter, 0, equals the
  maximum at the comparison that follows the first handler call, so the run stops in
  \<^verbatim>\<open>WIFI_INIT\<close> after the handler of that state alone, although every call succeeds.
\<close>

theorem server_update_all_succeed_counterexample:
  "(\<forall>f w. \<exists>w'. always_ok f w = Some (0, w')) \<and>
   server_update 7 0 always_ok 0 =
     Some \<lparr> ending = RetriesExhausted, current_state = WIFI_INIT, retries = 0,
            dispatched = [WIFI_INIT], world = 1 \<rparr>"
  by (simp add: server_update_def always_ok_def state_table_def
        NUM_OF_STATES_def Let_def server_update_loop_numeral)

text \<open>
  Claim C10.  Whatever the handlers return and whatever the maximum is, a run never
  reads \<^verbatim>\<open>state_table\<close> at an index outside 0 to 6: it does not end in
  \<open>TableIndexOutOfRange\<close>, and every state whose row was read is different from
  \<^verbatim>\<open>STOP\<close> and has a value below \<^verbatim>\<open>NUM_OF_STATES\<close>.  This holds for every amount
  of fuel, that is, for every iteration of a run whether it ends or not.
\<close>

theorem server_update_index_in_table:
  "server_update fuel MAXIMUM_RETRIES call w = Some run \<Longrightarrow>
   ending run \<noteq> TableIndexOutOfRange \<and>
   (\<forall>s\<in>set (dispatched run). s \<noteq> STOP \<and> state_value s < NUM_OF_STATES)"
  unfolding server_update_def
  using loop_in_range [of WIFI_INIT "[]" fuel MAXIMUM_RETRIES call 0 w run]
  by (auto simp: NUM_OF_STATES_def)

theorem server_update_index_in_table_witness:
  "\<exists>run. server_update 7 MAX_RETRIES always_ok 0 = Some run \<and>
         ending run \<noteq> TableIndexOutOfRange \<and>
         list_all (\<lambda>s. s \<noteq> STOP \<and> state_value s < NUM_OF_STATES) (dispatched run) \<and>
         dispatched run = [WIFI_INIT, READ_TIME, OPEN_CONNECTION, SEND_DATA,
                           RECEIVE_DATA, CLOSE_CONNECTION, POWER_DOWN]"
proof -
  have h: "server_update 7 MAX_RETRIES always_ok 0 =
     Some \<lparr> ending = ReachedStop, current_state = STOP, retries = 0,
            dispatched = [WIFI_INIT, READ_TIME, OPEN_CONNECTION, SEND_DATA,
                          RECEIVE_DATA, CLOSE_CONNECTION, POWER_DOWN],
            world = 7 \<rparr>"
    by (simp add: server_update_def MAX_RETRIES_def always_ok_def state_table_def
          NUM_OF_STATES_def Let_def server_update_loop_numeral)
  from server_update_index_in_table [OF h] h show ?thesis
    by (simp add: list_all_iff)
qed

section \<open>The wake scheduler: proofs\<close>

lemma low_nibble: "b < 16 \<Longrightarrow> (push_bit 4 a OR b) AND 0x0F = (b::nat)"
proof -
  assume b: "b < 16"
  have m: "(0x0F::nat) = mask 4" by (simp add: mask_eq_exp_minus_1)
  have "take_bit 4 (push_bit 4 a OR b) = take_bit 4 b"
    by (simp add: take_bit_push_bit)
  also have "\<dots> = b" using b by (simp add: take_bit_nat_eq_self)
  finally show ?thesis unfolding m by (simp add: take_bit_eq_mask)
qed

lemma high_nibble:
  "a < 16 \<Longrightarrow> b < 16 \<Longrightarrow> drop_bit 4 ((push_bit 4 a OR b) AND 0xF0) = (a::nat)"
proof -
  assume a: "a < 16" and b: "b < 16"
  have d: "drop_bit 4 (0xF0::nat) = mask 4" by (simp add: drop_bit_eq_div mask_eq_exp_minus_1)
  have db: "drop_bit 4 b = 0" using b by (simp add: drop_bit_eq_div)
  have "drop_bit 4 ((push_bit 4 a OR b) AND 0xF0) = (a OR drop_bit 4 b) AND mask 4"
    unfolding drop_bit_and drop_bit_or d by (simp add: drop_bit_push_bit)
  also have "\<dots> = take_bit 4 a" by (simp add: db take_bit_eq_mask)
  also have "\<dots> = a" using a by (simp add: take_bit_nat_eq_self)
  finally show ?thesis .
qed

lemma bcd_value: "b < 16 \<Longrightarrow> push_bit 4 a OR b = 16 * a + (b::nat)"
proof -
  assume b: "b < 16"
  have tb: "take_bit 4 b = b" using b by (simp add: take_bit_nat_eq_self)
  have "push_bit 4 a AND take_bit 4 b = 0"
    by (auto simp: bit_eq_iff bit_simps)
  then have "push_bit 4 a AND b = 0" by (simp only: tb)
  then have "push_bit 4 a + b = push_bit 4 a OR b" by (rule disjunctive_add_eq_or)
  then show ?thesis by (simp add: push_bit_eq_mult)
qed

lemma bin2bcd_value: "v < 100 \<Longrightarrow> RTC_convert_bin2bcd v = 16 * (v div 10) + v mod 10"
proof -
  assume v: "v < 100"
  have "v mod 10 < 16" by (rule less_trans [of _ 10]) simp_all
  then have "push_bit 4 (v div 10) OR (v mod 10) = 16 * (v div 10) + v mod 10"
    by (rule bcd_value)
  moreover have "v div 10 \<le> 9" using v by simp
  moreover have "v mod 10 \<le> 9" by simp
  ultimately show ?thesis unfolding RTC_convert_bin2bcd_def by simp
qed

lemma bin2bcd_less: "RTC_convert_bin2bcd v mod 256 = RTC_convert_bin2bcd v"
  by (simp add: RTC_convert_bin2bcd_def)

lemma bcd_roundtrip: "v < 100 \<Longrightarrow> RTC_convert_bcd2bin (RTC_convert_bin2bcd v) = v"
proof -
  assume v: "v < 100"
  have b: "v mod 10 < 16" by (rule less_trans [of _ 10]) simp_all
  have a: "v div 10 < 16" using v by simp
  have x: "RTC_convert_bin2bcd v = push_bit 4 (v div 10) OR (v mod 10)"
    using bin2bcd_value [OF v] bcd_value [OF b, of "v div 10"] by simp
  have "v div 10 * 10 + v mod 10 < 256" using v by simp
  then show ?thesis
    unfolding RTC_convert_bcd2bin_def x high_nibble [OF a b] low_nibble [OF b]
    by simp
qed

lemma alarm_time_carry:
  assumes "h \<le> 23" "m \<le> 59" "s \<le> 59" "d < 86400"
  shows "RTC_alarm_time (h, m, s) d =
         carry_time (h + d div 3600) (m + (d mod 3600) div 60) (s + d mod 60)"
proof -
  define a b c where "a = d div 3600" and "b = (d mod 3600) div 60" and "c = d mod 60"
  have a: "a \<le> 23" using assms(4) by (simp add: a_def)
  have b: "b \<le> 59" by (simp add: b_def)
  have c: "c \<le> 59" by (simp add: c_def)
  have s: "(s + c) mod 256 = s + c" using assms c by simp
  have m: "(m + b) mod 256 = m + b" "Suc (m + b) mod 256 = Suc (m + b)"
    using assms b by simp_all
  have h: "(h + a) mod 256 = h + a" "Suc (h + a) mod 256 = Suc (h + a)"
    using assms a by simp_all
  show ?thesis
    unfolding RTC_alarm_time_def carry_time_def
      a_def [symmetric] b_def [symmetric] c_def [symmetric]
    by (simp add: Let_def s m h)
qed

lemma carry_time_valid:
  assumes "ah \<le> 46" "am \<le> 118" "as \<le> 118"
  shows "valid_time (carry_time ah am as)"
  using assms by (auto simp: carry_time_def valid_time_def Let_def)

lemma carry_time_seconds:
  assumes "ah \<le> 46" "am \<le> 118" "as \<le> 118"
  shows "seconds_of_day (carry_time ah am as) = (3600 * ah + 60 * am + as) mod 86400"
proof -
  have m1: "\<And>x::nat. x < 86400 \<Longrightarrow> x mod 86400 = x" by simp
  have m2: "\<And>x::nat. 86400 \<le> x \<Longrightarrow> x < 172800 \<Longrightarrow> x mod 86400 = x - 86400"
    by (simp add: le_mod_geq)
  consider "3600 * ah + 60 * am + as < 86400" | "86400 \<le> 3600 * ah + 60 * am + as"
    by linarith
  then show ?thesis
  proof cases
    case 1
    then show ?thesis using assms
      by (auto simp: m1 carry_time_def seconds_of_day_def Let_def)
  next
    case 2
    moreover have "3600 * ah + 60 * am + as < 172800" using assms by linarith
    ultimately show ?thesis using assms
      by (auto simp: m2 carry_time_def seconds_of_day_def Let_def)
  qed
qed

lemma split_seconds:
  "3600 * (d div 3600) + 60 * ((d mod 3600) div 60) + d mod 60 = (d::nat)"
proof -
  have "d mod 60 = (d mod 3600) mod 60"
    by (simp add: mod_mod_cancel)
  then show ?thesis by simp
qed

lemma alarm_time_valid:
  assumes "valid_time (h, m, s)" and "d < 86400"
  shows "valid_time (RTC_alarm_time (h, m, s) d)"
proof -
  have v: "h \<le> 23" "m \<le> 59" "s \<le> 59" using assms(1) by (simp_all add: valid_time_def)
  have a: "d div 3600 \<le> 23" using assms(2) by simp
  have b: "(d mod 3600) div 60 \<le> 59" by simp
  have c: "d mod 60 \<le> 59" by simp
  show ?thesis
    unfolding alarm_time_carry [OF v assms(2)]
    by (rule carry_time_valid) (use v a b c in linarith)+
qed

lemma alarm_time_seconds:
  assumes "valid_time (h, m, s)" and "d < 86400"
  shows "seconds_of_day (RTC_alarm_time (h, m, s) d) =
         (seconds_of_day (h, m, s) + d) mod 86400"
proof -
  have v: "h \<le> 23" "m \<le> 59" "s \<le> 59" using assms(1) by (simp_all add: valid_time_def)
  have a: "d div 3600 \<le> 23" using assms(2) by simp
  have b: "(d mod 3600) div 60 \<le> 59" by simp
  have c: "d mod 60 \<le> 59" by simp
  have "seconds_of_day (RTC_alarm_time (h, m, s) d) =
        (3600 * (h + d div 3600) + 60 * (m + (d mod 3600) div 60) + (s + d mod 60)) mod 86400"
    unfolding alarm_time_carry [OF v assms(2)]
    by (rule carry_time_seconds) (use v a b c in linarith)+
  also have "3600 * (h + d div 3600) + 60 * (m + (d mod 3600) div 60) + (s + d mod 60) =
             (3600 * h + 60 * m + s) +
             (3600 * (d div 3600) + 60 * ((d mod 3600) div 60) + d mod 60)"
    by (simp add: algebra_simps)
  also have "\<dots> = seconds_of_day (h, m, s) + d"
    unfolding split_seconds by (simp add: seconds_of_day_def)
  finally show ?thesis .
qed

lemma seconds_of_day_inj:
  assumes "valid_time t" "valid_time t'" "seconds_of_day t = seconds_of_day t'"
  shows "t = t'"
proof -
  obtain h m s where t: "t = (h, m, s)" by (cases t) auto
  obtain h' m' s' where t': "t' = (h', m', s')" by (cases t') auto
  have v: "h \<le> 23" "m \<le> 59" "s \<le> 59" "h' \<le> 23" "m' \<le> 59" "s' \<le> 59"
    using assms(1,2) unfolding t t' by (simp_all add: valid_time_def)
  have e: "3600 * h + 60 * m + s = 3600 * h' + 60 * m' + s'"
    using assms(3) unfolding t t' by (simp add: seconds_of_day_def)
  have hh: "h = h'" using e v by linarith
  have mm: "m = m'" using e v hh by linarith
  have ss: "s = s'" using e hh mm by simp
  show ?thesis by (simp add: t t' hh mm ss)
qed

lemma alarm_time_additive:
  assumes "valid_time t" and "d1 < 86400" and "d2 < 86400"
  shows "RTC_alarm_time (RTC_alarm_time t d1) d2 = RTC_alarm_time t ((d1 + d2) mod 86400)"
proof -
  obtain h m s where t: "t = (h, m, s)" by (cases t) auto
  obtain h1 m1 s1 where t1: "RTC_alarm_time t d1 = (h1, m1, s1)"
    by (cases "RTC_alarm_time t d1") auto
  have v: "valid_time (h, m, s)" using assms(1) by (simp add: t)
  have v1: "valid_time (h1, m1, s1)"
    using alarm_time_valid [OF v assms(2)] by (simp add: t t1 [symmetric])
  have d: "(d1 + d2) mod 86400 < 86400" by simp
  have l: "valid_time (RTC_alarm_time (h1, m1, s1) d2)"
    by (rule alarm_time_valid [OF v1 assms(3)])
  have r: "valid_time (RTC_alarm_time (h, m, s) ((d1 + d2) mod 86400))"
    by (rule alarm_time_valid [OF v d])
  have s1: "seconds_of_day (h1, m1, s1) = (seconds_of_day (h, m, s) + d1) mod 86400"
    using alarm_time_seconds [OF v assms(2)] by (simp add: t t1 [symmetric])
  have "seconds_of_day (RTC_alarm_time (h1, m1, s1) d2) =
        ((seconds_of_day (h, m, s) + d1) mod 86400 + d2) mod 86400"
    unfolding alarm_time_seconds [OF v1 assms(3)] s1 ..
  also have "\<dots> = (seconds_of_day (h, m, s) + (d1 + d2) mod 86400) mod 86400"
    by (simp add: mod_simps add.assoc)
  also have "\<dots> = seconds_of_day (RTC_alarm_time (h, m, s) ((d1 + d2) mod 86400))"
    by (rule alarm_time_seconds [OF v d, symmetric])
  finally have "RTC_alarm_time (h1, m1, s1) d2 =
                RTC_alarm_time (h, m, s) ((d1 + d2) mod 86400)"
    using l r by (intro seconds_of_day_inj)
  then show ?thesis using t1 unfolding t by simp
qed

lemma alarm_bcd_encoded:
  assumes "h < 100" "m < 100" "s < 100"
  shows "RTC_alarm_bcd (RTC_convert_bin2bcd h, RTC_convert_bin2bcd m, RTC_convert_bin2bcd s) d =
         (case RTC_alarm_time (h, m, s) d of (h', m', s') \<Rightarrow>
            (RTC_convert_bin2bcd h', RTC_convert_bin2bcd m', RTC_convert_bin2bcd s'))"
  using assms by (simp add: RTC_alarm_bcd_def bin2bcd_less bcd_roundtrip)

lemma alarm_time_0:
  assumes "h \<le> 23" "m \<le> 59" "s \<le> 59"
  shows "RTC_alarm_time (h, m, s) 0 = (h, m, s)"
  using assms by (simp add: RTC_alarm_time_def)

lemma wait_ALRAWF_never: "\<forall>j. \<not> flag j \<Longrightarrow> wait_ALRAWF flag k t = 0"
  by (induction t arbitrary: k) simp_all


text \<open>
  Claim C4.  For a current time with hour at most 23, minute and second at most 59 and a
  delay below 86400 seconds, the hour of the alarm is at most 23 and its minute and
  second are at most 59, and \<^verbatim>\<open>RTC_set_alarm\<close> computes, from the BCD encoding of the
  current time, the BCD encoding of that alarm time.  With the delay 0 the alarm time is
  the current time, and 23:59:59 with the delay 2 gives 00:00:01.
\<close>

theorem RTC_alarm_time_in_range:
  assumes "h \<le> 23" and "m \<le> 59" and "s \<le> 59" and "d < 86400"
  shows "(case RTC_alarm_time (h, m, s) d of (h', m', s') \<Rightarrow>
            h' \<le> 23 \<and> m' \<le> 59 \<and> s' \<le> 59 \<and>
            RTC_alarm_bcd (RTC_convert_bin2bcd h, RTC_convert_bin2bcd m,
                           RTC_convert_bin2bcd s) d =
              (RTC_convert_bin2bcd h', RTC_convert_bin2bcd m', RTC_convert_bin2bcd s')) \<and>
         RTC_alarm_time (h, m, s) 0 = (h, m, s) \<and>
         RTC_alarm_bcd (RTC_convert_bin2bcd h, RTC_convert_bin2bcd m,
                        RTC_convert_bin2bcd s) 0 =
           (RTC_convert_bin2bcd h, RTC_convert_bin2bcd m, RTC_convert_bin2bcd s) \<and>
         RTC_alarm_time (23, 59, 59) 2 = (0, 0, 1) \<and>
         RTC_alarm_bcd (0x23, 0x59, 0x59) 2 = (0x00, 0x00, 0x01)"
proof -
  obtain h' m' s' where r: "RTC_alarm_time (h, m, s) d = (h', m', s')"
    by (cases "RTC_alarm_time (h, m, s) d") auto
  have v: "valid_time (h, m, s)" using assms by (simp add: valid_time_def)
  have lt: "h < 100" "m < 100" "s < 100" using assms by simp_all
  have "valid_time (h', m', s')" using alarm_time_valid [OF v assms(4)] by (simp add: r)
  then have 1: "h' \<le> 23 \<and> m' \<le> 59 \<and> s' \<le> 59" by (simp add: valid_time_def)
  have 2: "RTC_alarm_bcd (RTC_convert_bin2bcd h, RTC_convert_bin2bcd m,
                           RTC_convert_bin2bcd s) d =
              (RTC_convert_bin2bcd h', RTC_convert_bin2bcd m', RTC_convert_bin2bcd s')"
    by (simp add: alarm_bcd_encoded [OF lt] r)
  have 3: "RTC_alarm_time (h, m, s) 0 = (h, m, s)"
    using assms(1-3) by (rule alarm_time_0)
  have 4: "RTC_alarm_bcd (RTC_convert_bin2bcd h, RTC_convert_bin2bcd m,
                        RTC_convert_bin2bcd s) 0 =
           (RTC_convert_bin2bcd h, RTC_convert_bin2bcd m, RTC_convert_bin2bcd s)"
    by (simp add: alarm_bcd_encoded [OF lt] 3)
  have 5: "RTC_alarm_time (23, 59, 59) 2 = (0, 0, 1)"
    by (simp add: RTC_alarm_time_def)
  have 6: "RTC_alarm_bcd (0x23, 0x59, 0x59) 2 = (0x00, 0x00, 0x01)"
    by (simp add: RTC_alarm_bcd_def RTC_alarm_time_def RTC_convert_bcd2bin_def
          RTC_convert_bin2bcd_def)
  show ?thesis using 1 2 3 4 5 6 by (simp add: r)
qed

theorem RTC_alarm_time_in_range_witness:
  "((20::nat) \<le> 23 \<and> (45::nat) \<le> 59 \<and> (0::nat) \<le> 59 \<and> SLEEP_TIME < 86400) \<and>
   RTC_alarm_time (20, 45, 0) SLEEP_TIME = (21, 15, 0) \<and>
   RTC_alarm_bcd (0x20, 0x45, 0x00) SLEEP_TIME = (0x21, 0x15, 0x00) \<and>
   RTC_alarm_time (20, 45, 0) 0 = (20, 45, 0)"
proof -
  have h: "(20::nat) \<le> 23" "(45::nat) \<le> 59" "(0::nat) \<le> 59" "SLEEP_TIME < 86400"
    by (simp_all add: SLEEP_TIME_def)
  have e: "RTC_alarm_time (20, 45, 0) SLEEP_TIME = (21, 15, 0)"
    by (simp add: RTC_alarm_time_def SLEEP_TIME_def)
  have b: "RTC_convert_bin2bcd 20 = 0x20" "RTC_convert_bin2bcd 45 = 0x45"
    "RTC_convert_bin2bcd 0 = 0" "RTC_convert_bin2bcd 21 = 0x21" "RTC_convert_bin2bcd 15 = 0x15"
    by (simp_all add: RTC_convert_bin2bcd_def)
  from RTC_alarm_time_in_range [OF h] h e b show ?thesis by simp
qed

text \<open>
  Claim C5, restricted to delays below one day.  For a current time in range and two
  delays below 86400 seconds, computing the alarm time twice in succession gives the
  alarm time of the sum of the delays reduced modulo 86400, on the binary times and on
  their BCD encodings.
\<close>

theorem RTC_alarm_time_additive:
  assumes "h \<le> 23" and "m \<le> 59" and "s \<le> 59" and "d1 < 86400" and "d2 < 86400"
  shows "RTC_alarm_time (RTC_alarm_time (h, m, s) d1) d2 =
           RTC_alarm_time (h, m, s) ((d1 + d2) mod 86400) \<and>
         RTC_alarm_bcd (RTC_alarm_bcd (RTC_convert_bin2bcd h, RTC_convert_bin2bcd m,
                                       RTC_convert_bin2bcd s) d1) d2 =
           RTC_alarm_bcd (RTC_convert_bin2bcd h, RTC_convert_bin2bcd m,
                          RTC_convert_bin2bcd s) ((d1 + d2) mod 86400)"
proof -
  have v: "valid_time (h, m, s)" using assms by (simp add: valid_time_def)
  have lt: "h < 100" "m < 100" "s < 100" using assms by simp_all
  obtain h1 m1 s1 where r: "RTC_alarm_time (h, m, s) d1 = (h1, m1, s1)"
    by (cases "RTC_alarm_time (h, m, s) d1") auto
  have "valid_time (h1, m1, s1)" using alarm_time_valid [OF v assms(4)] by (simp add: r)
  then have lt1: "h1 < 100" "m1 < 100" "s1 < 100" by (simp_all add: valid_time_def)
  have a: "RTC_alarm_time (RTC_alarm_time (h, m, s) d1) d2 =
           RTC_alarm_time (h, m, s) ((d1 + d2) mod 86400)"
    using v assms(4,5) by (rule alarm_time_additive)
  have "RTC_alarm_bcd (RTC_alarm_bcd (RTC_convert_bin2bcd h, RTC_convert_bin2bcd m,
                                       RTC_convert_bin2bcd s) d1) d2 =
        (case RTC_alarm_time (h1, m1, s1) d2 of (h', m', s') \<Rightarrow>
            (RTC_convert_bin2bcd h', RTC_convert_bin2bcd m', RTC_convert_bin2bcd s'))"
    by (simp add: alarm_bcd_encoded [OF lt] r alarm_bcd_encoded [OF lt1])
  also have "RTC_alarm_time (h1, m1, s1) d2 = RTC_alarm_time (h, m, s) ((d1 + d2) mod 86400)"
    using a by (simp add: r)
  finally show ?thesis using a by (simp add: alarm_bcd_encoded [OF lt])
qed

theorem RTC_alarm_time_additive_witness:
  "((23::nat) \<le> 23 \<and> (59::nat) \<le> 59 \<and> (59::nat) \<le> 59 \<and>
    (2::nat) < 86400 \<and> (86399::nat) < 86400) \<and>
   RTC_alarm_time (RTC_alarm_time (23, 59, 59) 2) 86399 =
     RTC_alarm_time (23, 59, 59) ((2 + 86399) mod 86400) \<and>
   RTC_alarm_time (23, 59, 59) ((2 + 86399) mod 86400) = (0, 0, 0)"
proof -
  have h: "(23::nat) \<le> 23" "(59::nat) \<le> 59" "(59::nat) \<le> 59"
    "(2::nat) < 86400" "(86399::nat) < 86400" by simp_all
  have e: "RTC_alarm_time (23, 59, 59) ((2 + 86399) mod 86400) = (0, 0, 0)"
    by (simp add: RTC_alarm_time_def)
  from RTC_alarm_time_additive [OF h, THEN conjunct1] h e show ?thesis by simp
qed

text \<open>
  Claim C5, as stated for all delays, fails.  From 23:00:00 the delay 0 gives 23:00:00
  again, a time that the registers can hold; from there a delay of 176400 seconds (49
  hours) gives the hour 48 after the single subtraction of 24, in BCD \<open>0x48\<close>, while the
  combined delay reduced modulo one day is 3600 and gives 00:00:00.
\<close>

theorem RTC_alarm_time_additive_counterexample:
  "RTC_alarm_time (23, 0, 0) 0 = (23, 0, 0) \<and>
   RTC_alarm_time (RTC_alarm_time (23, 0, 0) 0) 176400 = (48, 0, 0) \<and>
   RTC_alarm_time (23, 0, 0) ((0 + 176400) mod 86400) = (0, 0, 0) \<and>
   RTC_alarm_bcd (0x23, 0x00, 0x00) 0 = (0x23, 0x00, 0x00) \<and>
   RTC_alarm_bcd (RTC_alarm_bcd (0x23, 0x00, 0x00) 0) 176400 = (0x48, 0x00, 0x00) \<and>
   RTC_alarm_bcd (0x23, 0x00, 0x00) ((0 + 176400) mod 86400) = (0x00, 0x00, 0x00)"
  by (simp add: RTC_alarm_bcd_def RTC_alarm_time_def RTC_convert_bcd2bin_def
        RTC_convert_bin2bcd_def)

section \<open>The receive buffer: proofs\<close>

lemma run_irqs_append:
  "run_irqs (es @ fs) m = (case run_irqs es m of None \<Rightarrow> None | Some m' \<Rightarrow> run_irqs fs m')"
proof (induction es arbitrary: m)
  case Nil
  then show ?case by simp
next
  case (Cons e es)
  then show ?case by (cases e) (simp_all split: option.splits)
qed

lemma run_irqs_SysTicks:
  "run_irqs (replicate n SysTick) m =
   Some (m \<lparr> current_tick := current_tick m + of_nat n \<rparr>)"
proof (induction n arbitrary: m)
  case 0
  show ?case by simp
next
  case (Suc n)
  show ?case by (simp add: Suc SysTick_Handler_def tick_increment_def add.assoc add.commute)
qed

lemma replicate_8: "replicate 8 x = [x, x, x, x, x, x, x, x]"
  by (simp add: eval_nat_numeral)

lemma replicate_4: "replicate 4 x = [x, x, x, x]"
  by (simp add: eval_nat_numeral)

lemma rotate_push:
  assumes I: "I < length buf"
  shows "drop (Suc I mod length buf) (buf[I := b]) @ take (Suc I mod length buf) (buf[I := b]) =
         tl (drop I buf @ take I buf) @ [b]"
proof -
  have "drop I buf = buf ! I # drop (Suc I) buf"
    using I by (simp add: Cons_nth_drop_Suc)
  then have tl: "tl (drop I buf @ take I buf) = drop (Suc I) buf @ take I buf"
    by simp
  show ?thesis
  proof (cases "Suc I < length buf")
    case True
    then have m: "Suc I mod length buf = Suc I" by simp
    have d: "drop (Suc I) (buf[I := b]) = drop (Suc I) buf" by simp
    have t: "take (Suc I) (buf[I := b]) = take I buf @ [b]"
      using I by (simp add: take_Suc_conv_app_nth)
    show ?thesis unfolding m d t tl by simp
  next
    case False
    with I have e: "Suc I = length buf" by simp
    then have m: "Suc I mod length buf = 0" by simp
    have u: "buf[I := b] = take I buf @ [b]"
      using I e by (simp add: upd_conv_take_nth_drop)
    have d: "drop (Suc I) buf = []" using e by simp
    show ?thesis unfolding m tl d using u by simp
  qed
qed

lemma pushes_invariant:
  assumes "uart_receive_index m = 0" and "uart_receive_buffer m = replicate N (CHR 0x00)"
    and "0 < N"
  shows "\<exists>m'. run_irqs (rx_bytes bs) m = Some m' \<and>
              length (uart_receive_buffer m') = N \<and>
              uart_receive_index m' = length bs mod N \<and>
              drop (uart_receive_index m') (uart_receive_buffer m') @
                take (uart_receive_index m') (uart_receive_buffer m') =
              drop (length bs) (replicate N (CHR 0x00) @ bs)"
proof (induction bs rule: rev_induct)
  case Nil
  show ?case using assms by (simp add: rx_bytes_def)
next
  case (snoc b bs)
  then obtain m' where m': "run_irqs (rx_bytes bs) m = Some m'"
    and len: "length (uart_receive_buffer m') = N"
    and idx: "uart_receive_index m' = length bs mod N"
    and rot: "drop (uart_receive_index m') (uart_receive_buffer m') @
                take (uart_receive_index m') (uart_receive_buffer m') =
              drop (length bs) (replicate N (CHR 0x00) @ bs)"
    by blast
  define I where "I = uart_receive_index m'"
  define buf where "buf = uart_receive_buffer m'"
  have I: "I < length buf" using idx len assms(3) by (simp add: I_def buf_def)
  define m'' where "m'' = m' \<lparr> uart_receive_buffer := buf[I := b],
                                 uart_receive_index := (I + 1) mod length buf \<rparr>"
  have h: "USART1_IRQHandler (Some b) m' = Some m''"
    using I by (simp add: USART1_IRQHandler_def m''_def I_def buf_def)
  have run: "run_irqs (rx_bytes (bs @ [b])) m = Some m''"
    by (simp add: rx_bytes_def run_irqs_append m' [unfolded rx_bytes_def] h)
  have i'': "uart_receive_index m'' = length (bs @ [b]) mod N"
    using idx len by (simp add: m''_def I_def buf_def mod_Suc_eq)
  have "drop (length (bs @ [b])) (replicate N (CHR 0x00) @ bs @ [b]) =
        drop (Suc (length bs)) (replicate N (CHR 0x00) @ bs) @ [b]"
    using assms(3) by simp
  also have "\<dots> = tl (drop (length bs) (replicate N (CHR 0x00) @ bs)) @ [b]"
    by (simp only: drop_Suc tl_drop)
  also have "\<dots> = tl (drop I buf @ take I buf) @ [b]"
    using rot by (simp add: I_def buf_def)
  also have "\<dots> = drop (Suc I mod length buf) (buf[I := b]) @
                    take (Suc I mod length buf) (buf[I := b])"
    by (rule rotate_push [OF I, symmetric])
  finally have r'': "drop (uart_receive_index m'') (uart_receive_buffer m'') @
                take (uart_receive_index m'') (uart_receive_buffer m'') =
              drop (length (bs @ [b])) (replicate N (CHR 0x00) @ bs @ [b])"
    by (simp add: m''_def)
  have l'': "length (uart_receive_buffer m'') = N" using len by (simp add: m''_def buf_def)
  show ?case using run l'' i'' r'' by blast
qed

text \<open>
  Claim C8.  From a cleared buffer of \<open>N\<close> bytes with the cursor at 0, whatever bytes
  arrive: after each of them the handler has stored inside the array (the run of the
  interrupts is \<open>Some\<close>), the cursor is below \<open>N\<close> and the array still has
  \<open>N\<close> elements; after all \<open>n\<close> of them the cursor is \<open>n mod N\<close>, and when
  \<open>n\<close> is at least \<open>N\<close> the buffer read from the cursor round to the cursor is
  the last \<open>N\<close> bytes received, oldest first.
\<close>

theorem USART1_IRQHandler_ring:
  assumes "uart_receive_index m = 0" and "uart_receive_buffer m = replicate N (CHR 0x00)"
    and "0 < N"
  shows "(\<forall>k\<le>length bs. \<exists>mk. run_irqs (rx_bytes (take k bs)) m = Some mk \<and>
            uart_receive_index mk < N \<and> length (uart_receive_buffer mk) = N) \<and>
         (\<exists>m'. run_irqs (rx_bytes bs) m = Some m' \<and>
            uart_receive_index m' = length bs mod N \<and>
            (N \<le> length bs \<longrightarrow>
               drop (uart_receive_index m') (uart_receive_buffer m') @
                 take (uart_receive_index m') (uart_receive_buffer m') =
               drop (length bs - N) bs))"
proof (intro conjI allI impI)
  fix k assume "k \<le> length bs"
  from pushes_invariant [OF assms, of "take k bs"] assms(3)
  show "\<exists>mk. run_irqs (rx_bytes (take k bs)) m = Some mk \<and>
            uart_receive_index mk < N \<and> length (uart_receive_buffer mk) = N"
    by auto
next
  from pushes_invariant [OF assms, of bs]
  obtain m' where m': "run_irqs (rx_bytes bs) m = Some m'"
    "uart_receive_index m' = length bs mod N"
    "drop (uart_receive_index m') (uart_receive_buffer m') @
                take (uart_receive_index m') (uart_receive_buffer m') =
              drop (length bs) (replicate N (CHR 0x00) @ bs)"
    by blast
  have "N \<le> length bs \<longrightarrow> drop (length bs) (replicate N (CHR 0x00) @ bs) = drop (length bs - N) bs"
    by simp
  with m' show "\<exists>m'. run_irqs (rx_bytes bs) m = Some m' \<and>
            uart_receive_index m' = length bs mod N \<and>
            (N \<le> length bs \<longrightarrow>
               drop (uart_receive_index m') (uart_receive_buffer m') @
                 take (uart_receive_index m') (uart_receive_buffer m') =
               drop (length bs - N) bs)"
    by auto
qed

theorem USART1_IRQHandler_ring_witness:
  "(uart_receive_index (cleared_machine 4) = 0 \<and>
    uart_receive_buffer (cleared_machine 4) = replicate 4 (CHR 0x00) \<and> (0::nat) < 4) \<and>
   run_irqs (rx_bytes ''abcdef'') (cleared_machine 4) =
     Some \<lparr> current_tick = 0, uart_receive_buffer = ''efcd'', uart_receive_index = 2,
            uart1_tx = [] \<rparr> \<and>
   drop 2 ''efcd'' @ take 2 ''efcd'' = drop (length ''abcdef'' - 4) ''abcdef'' \<and>
   (\<exists>mk. run_irqs (rx_bytes (take 5 ''abcdef'')) (cleared_machine 4) = Some mk \<and>
         uart_receive_index mk < 4 \<and> length (uart_receive_buffer mk) = 4)"
proof -
  have h: "uart_receive_index (cleared_machine 4) = 0"
    "uart_receive_buffer (cleared_machine 4) = replicate 4 (CHR 0x00)" "(0::nat) < 4"
    by (simp_all add: cleared_machine_def)
  have e: "run_irqs (rx_bytes ''abcdef'') (cleared_machine 4) =
     Some \<lparr> current_tick = 0, uart_receive_buffer = ''efcd'', uart_receive_index = 2,
            uart1_tx = [] \<rparr>"
    by (simp add: rx_bytes_def cleared_machine_def USART1_IRQHandler_def replicate_4)
  have k: "(5::nat) \<le> length ''abcdef''" by simp
  from USART1_IRQHandler_ring [OF h, of "''abcdef''", THEN conjunct1, rule_format, OF k]
    USART1_IRQHandler_ring [OF h, of "''abcdef''", THEN conjunct2] h e
  show ?thesis by simp
qed


section \<open>The transaction engine: proofs\<close>

lemma machine_at_1: "machine_at (bt # rest) m (Suc 0) = run_irqs bt m"
  by (simp add: machine_at_def)

lemma machine_at_Suc:
  "run_irqs bt m = Some m1 \<Longrightarrow> machine_at (bt # rest) m (Suc n) = machine_at rest m1 n"
  by (simp add: machine_at_def run_irqs_append)

lemma machine_at_Suc_Suc:
  "run_irqs bt m = Some m1 \<Longrightarrow> run_irqs bs m1 = Some m2 \<Longrightarrow>
   machine_at (bt # bs # rest) m (Suc (Suc n)) = machine_at rest m2 n"
  by (simp add: machine_at_Suc)

lemma machine_at_Suc_Some:
  assumes "machine_at (bt # rest) m (Suc n) = Some mk"
  obtains m1 where "run_irqs bt m = Some m1" "machine_at rest m1 n = Some mk"
  using assms by (auto simp: machine_at_def run_irqs_append split: option.splits)

lemma elapsed_at_shift:
  "run_irqs bt m = Some m1 \<Longrightarrow> run_irqs bs m1 = Some m2 \<Longrightarrow>
   elapsed_at st (bt # bs # rest) m (Suc j) = elapsed_at st rest m2 j"
  by (simp add: elapsed_at_def machine_at_Suc_Suc)

lemma scan_at_shift:
  "run_irqs bt m = Some m1 \<Longrightarrow> run_irqs bs m1 = Some m2 \<Longrightarrow>
   scan_at tok (bt # bs # rest) m (Suc j) = scan_at tok rest m2 j"
  by (simp add: scan_at_def machine_at_Suc_Suc)

text \<open>One lemma for each way through the body of the polling loop.\<close>

lemma wait_Nil:
  "send_command_wait vsscanf exp exp_parse exp_end delay st args [] m = Running"
  by simp

lemma wait_fault1:
  "run_irqs bt m = None \<Longrightarrow>
   send_command_wait vsscanf exp exp_parse exp_end delay st args (bt # rest) m =
   Fault WriteOutOfBounds"
  by simp

lemma wait_timeout:
  assumes "run_irqs bt m = Some m1" and "delay \<le> get_tick m1 - st"
  shows "send_command_wait vsscanf exp exp_parse exp_end delay st args (bt # rest) m =
         Returns (WIFI_TIMEOUT, args, m1, rest)"
  using assms by simp

lemma wait_end1:
  "run_irqs bt m = Some m1 \<Longrightarrow> \<not> delay \<le> get_tick m1 - st \<Longrightarrow>
   send_command_wait vsscanf exp exp_parse exp_end delay st args [bt] m = Running"
  by simp

lemma wait_fault2:
  "run_irqs bt m = Some m1 \<Longrightarrow> \<not> delay \<le> get_tick m1 - st \<Longrightarrow>
   run_irqs bs m1 = None \<Longrightarrow>
   send_command_wait vsscanf exp exp_parse exp_end delay st args (bt # bs # rest) m =
   Fault WriteOutOfBounds"
  by simp

lemma wait_unterminated:
  "run_irqs bt m = Some m1 \<Longrightarrow> \<not> delay \<le> get_tick m1 - st \<Longrightarrow>
   run_irqs bs m1 = Some m2 \<Longrightarrow> c_string (uart_receive_buffer m2) = None \<Longrightarrow>
   send_command_wait vsscanf exp exp_parse exp_end delay st args (bt # bs # rest) m =
   Fault ScanUnterminated"
  by simp

lemma wait_quiet:
  assumes "run_irqs bt m = Some m1" and "\<not> delay \<le> get_tick m1 - st"
    and "run_irqs bs m1 = Some m2" and "c_string (uart_receive_buffer m2) = Some str"
    and "strstr str exp_end = None"
  shows "send_command_wait vsscanf exp exp_parse exp_end delay st args (bt # bs # rest) m =
         send_command_wait vsscanf exp exp_parse exp_end delay st args rest m2"
  using assms by simp

lemma wait_end2:
  "run_irqs bt m = Some m1 \<Longrightarrow> \<not> delay \<le> get_tick m1 - st \<Longrightarrow>
   run_irqs bs m1 = Some m2 \<Longrightarrow> c_string (uart_receive_buffer m2) = Some str \<Longrightarrow>
   strstr str exp_end = Some found \<Longrightarrow>
   send_command_wait vsscanf exp exp_parse exp_end delay st args [bt, bs] m = Running"
  by simp

lemma wait_fault3:
  "run_irqs bt m = Some m1 \<Longrightarrow> \<not> delay \<le> get_tick m1 - st \<Longrightarrow>
   run_irqs bs m1 = Some m2 \<Longrightarrow> c_string (uart_receive_buffer m2) = Some str \<Longrightarrow>
   strstr str exp_end = Some found \<Longrightarrow> run_irqs bc m2 = None \<Longrightarrow>
   send_command_wait vsscanf exp exp_parse exp_end delay st args (bt # bs # bc # rest) m =
   Fault WriteOutOfBounds"
  by simp

lemma wait_found:
  assumes "run_irqs bt m = Some m1" and "\<not> delay \<le> get_tick m1 - st"
    and "run_irqs bs m1 = Some m2" and "c_string (uart_receive_buffer m2) = Some str"
    and "strstr str exp_end = Some found" and "run_irqs bc m2 = Some m3"
  shows "send_command_wait vsscanf exp exp_parse exp_end delay st args (bt # bs # bc # rest) m =
         Returns (WIFI_OK, send_command_parse vsscanf exp exp_parse (captured m3) args, m3, rest)"
  using assms by (simp add: captured_def)

declare send_command_wait.simps [simp del]

lemma first_iteration_quiet:
  assumes e: "elapsed_at st (bt # bs # rest) m 0 = Some e" and lt: "e < delay"
    and s: "scan_at exp_end (bt # bs # rest) m 0 = Some False"
  obtains m1 m2 str where "run_irqs bt m = Some m1" "\<not> delay \<le> get_tick m1 - st"
    "run_irqs bs m1 = Some m2" "c_string (uart_receive_buffer m2) = Some str"
    "strstr str exp_end = None"
proof -
  from e obtain m1 where m1: "run_irqs bt m = Some m1" and e1: "e = get_tick m1 - st"
    by (auto simp: elapsed_at_def machine_at_1)
  from s m1 obtain m2 where m2: "run_irqs bs m1 = Some m2"
    by (auto simp: scan_at_def machine_at_def run_irqs_append split: option.splits)
  from s m1 m2 obtain str where t: "c_string (uart_receive_buffer m2) = Some str"
      "strstr str exp_end = None"
    by (auto simp: scan_at_def machine_at_def run_irqs_append split: option.splits)
  show ?thesis using that [OF m1 _ m2 t] lt e1 by (simp add: not_le)
qed

lemma first_iteration_found:
  assumes e: "elapsed_at st (bt # bs # rest) m 0 = Some e" and lt: "e < delay"
    and s: "scan_at exp_end (bt # bs # rest) m 0 = Some True"
  obtains m1 m2 str found where "run_irqs bt m = Some m1" "\<not> delay \<le> get_tick m1 - st"
    "run_irqs bs m1 = Some m2" "c_string (uart_receive_buffer m2) = Some str"
    "strstr str exp_end = Some found"
proof -
  from e obtain m1 where m1: "run_irqs bt m = Some m1" and e1: "e = get_tick m1 - st"
    by (auto simp: elapsed_at_def machine_at_1)
  from s m1 obtain m2 where m2: "run_irqs bs m1 = Some m2"
    by (auto simp: scan_at_def machine_at_def run_irqs_append split: option.splits)
  from s m1 m2 obtain str found where t: "c_string (uart_receive_buffer m2) = Some str"
      "strstr str exp_end = Some found"
    by (auto simp: scan_at_def machine_at_def run_irqs_append split: option.splits)
  show ?thesis using that [OF m1 _ m2 t] lt e1 by (simp add: not_le)
qed

lemma quiet_shift:
  assumes q: "\<forall>j<Suc k. (\<exists>e. elapsed_at st (bt # bs # rest) m j = Some e \<and> e < delay) \<and>
                  scan_at exp_end (bt # bs # rest) m j = Some False"
    and m1: "run_irqs bt m = Some m1" and m2: "run_irqs bs m1 = Some m2"
  shows "\<forall>j<k. (\<exists>e. elapsed_at st rest m2 j = Some e \<and> e < delay) \<and>
                  scan_at exp_end rest m2 j = Some False"
proof (intro allI impI)
  fix j assume "j < k"
  then have "Suc j < Suc k" by simp
  with q have "(\<exists>e. elapsed_at st (bt # bs # rest) m (Suc j) = Some e \<and> e < delay) \<and>
                  scan_at exp_end (bt # bs # rest) m (Suc j) = Some False" by blast
  then show "(\<exists>e. elapsed_at st rest m2 j = Some e \<and> e < delay) \<and>
                  scan_at exp_end rest m2 j = Some False"
    by (simp add: elapsed_at_shift [OF m1 m2] scan_at_shift [OF m1 m2])
qed

lemma wait_times_out:
  assumes "\<forall>j<k. (\<exists>e. elapsed_at st polls m j = Some e \<and> e < delay) \<and>
                  scan_at exp_end polls m j = Some False"
    and "machine_at polls m (2 * k + 1) = Some mk" and "delay \<le> get_tick mk - st"
    and "2 * k < length polls"
  shows "send_command_wait vsscanf exp exp_parse exp_end delay st args polls m =
         Returns (WIFI_TIMEOUT, args, mk, drop (2 * k + 1) polls)"
  using assms
proof (induction k arbitrary: polls m)
  case 0
  then obtain bt rest where p: "polls = bt # rest" by (cases polls) auto
  with 0 have "run_irqs bt m = Some mk" by (simp add: machine_at_1)
  then have w: "send_command_wait vsscanf exp exp_parse exp_end delay st args (bt # rest) m =
                Returns (WIFI_TIMEOUT, args, mk, rest)"
    using 0(3) by (rule wait_timeout)
  show ?case unfolding p w by simp
next
  case (Suc k)
  from Suc.prems(4) obtain bt bs rest where p: "polls = bt # bs # rest"
    by (cases polls; cases "tl polls") auto
  from Suc.prems(1) obtain e where e: "elapsed_at st polls m 0 = Some e" "e < delay"
    and s: "scan_at exp_end polls m 0 = Some False" by auto
  from first_iteration_quiet [OF e(1) [unfolded p] e(2) s [unfolded p]]
  obtain m1 m2 str where it: "run_irqs bt m = Some m1" "\<not> delay \<le> get_tick m1 - st"
    "run_irqs bs m1 = Some m2" "c_string (uart_receive_buffer m2) = Some str"
    "strstr str exp_end = None" by blast
  note q = quiet_shift [OF Suc.prems(1) [unfolded p] it(1) it(3)]
  have n: "2 * Suc k + 1 = Suc (Suc (2 * k + 1))" by simp
  have mk: "machine_at rest m2 (2 * k + 1) = Some mk"
    using Suc.prems(2) unfolding p n by (simp only: machine_at_Suc_Suc [OF it(1) it(3)])
  have len: "2 * k < length rest" using Suc.prems(4) unfolding p by simp
  have "send_command_wait vsscanf exp exp_parse exp_end delay st args polls m =
        send_command_wait vsscanf exp exp_parse exp_end delay st args rest m2"
    unfolding p by (rule wait_quiet [OF it])
  also have "\<dots> = Returns (WIFI_TIMEOUT, args, mk, drop (2 * k + 1) rest)"
    by (rule Suc.IH [OF q mk Suc.prems(3) len])
  also have "drop (2 * k + 1) rest = drop (2 * Suc k + 1) polls"
    by (simp only: p n drop_Suc_Cons)
  finally show ?case .
qed

lemma wait_returns_ok:
  assumes "\<forall>j<k. (\<exists>e. elapsed_at st polls m j = Some e \<and> e < delay) \<and>
                  scan_at exp_end polls m j = Some False"
    and "elapsed_at st polls m k = Some e" and "e < delay"
    and "scan_at exp_end polls m k = Some True"
    and "machine_at polls m (2 * k + 3) = Some m3"
    and "2 * k + 2 < length polls"
  shows "send_command_wait vsscanf exp exp_parse exp_end delay st args polls m =
         Returns (WIFI_OK, send_command_parse vsscanf exp exp_parse (captured m3) args, m3,
                  drop (2 * k + 3) polls)"
  using assms
proof (induction k arbitrary: polls m)
  case 0
  from 0(6) obtain bt bs bc rest where p: "polls = bt # bs # bc # rest"
    by (cases polls; cases "tl polls"; cases "tl (tl polls)") auto
  from first_iteration_found [OF 0(2) [unfolded p] 0(3) 0(4) [unfolded p]]
  obtain m1 m2 str found where it: "run_irqs bt m = Some m1" "\<not> delay \<le> get_tick m1 - st"
    "run_irqs bs m1 = Some m2" "c_string (uart_receive_buffer m2) = Some str"
    "strstr str exp_end = Some found" by blast
  have "machine_at (bt # bs # bc # rest) m (Suc (Suc (Suc 0))) = Some m3"
    using 0(5) unfolding p by (simp add: numeral_3_eq_3)
  then have "run_irqs bc m2 = Some m3"
    by (simp add: machine_at_Suc_Suc [OF it(1) it(3)] machine_at_1)
  then have w: "send_command_wait vsscanf exp exp_parse exp_end delay st args
                  (bt # bs # bc # rest) m =
                Returns (WIFI_OK, send_command_parse vsscanf exp exp_parse (captured m3) args,
                         m3, rest)"
    by (rule wait_found [OF it])
  show ?case unfolding p w by simp
next
  case (Suc k)
  from Suc.prems(6) obtain bt bs rest where p: "polls = bt # bs # rest"
    by (cases polls; cases "tl polls") auto
  from Suc.prems(1) obtain e0 where e: "elapsed_at st polls m 0 = Some e0" "e0 < delay"
    and s: "scan_at exp_end polls m 0 = Some False" by auto
  from first_iteration_quiet [OF e(1) [unfolded p] e(2) s [unfolded p]]
  obtain m1 m2 str where it: "run_irqs bt m = Some m1" "\<not> delay \<le> get_tick m1 - st"
    "run_irqs bs m1 = Some m2" "c_string (uart_receive_buffer m2) = Some str"
    "strstr str exp_end = None" by blast
  note sh = elapsed_at_shift [OF it(1) it(3)] scan_at_shift [OF it(1) it(3)]
  note q = quiet_shift [OF Suc.prems(1) [unfolded p] it(1) it(3)]
  have ek: "elapsed_at st rest m2 k = Some e" using Suc.prems(2) unfolding p by (simp add: sh)
  have sk: "scan_at exp_end rest m2 k = Some True"
    using Suc.prems(4) unfolding p by (simp add: sh)
  have n: "2 * Suc k + 3 = Suc (Suc (2 * k + 3))" by simp
  have mk: "machine_at rest m2 (2 * k + 3) = Some m3"
    using Suc.prems(5) unfolding p n by (simp only: machine_at_Suc_Suc [OF it(1) it(3)])
  have len: "2 * k + 2 < length rest" using Suc.prems(6) unfolding p by simp
  have "send_command_wait vsscanf exp exp_parse exp_end delay st args polls m =
        send_command_wait vsscanf exp exp_parse exp_end delay st args rest m2"
    unfolding p by (rule wait_quiet [OF it])
  also have "\<dots> = Returns (WIFI_OK,
                  send_command_parse vsscanf exp exp_parse (captured m3) args,
                  m3, drop (2 * k + 3) rest)"
    by (rule Suc.IH [OF q ek Suc.prems(3) sk mk len])
  also have "drop (2 * k + 3) rest = drop (2 * Suc k + 3) polls"
    by (simp only: p n drop_Suc_Cons)
  finally show ?case .
qed

lemma wait_response:
  "send_command_wait vsscanf exp exp_parse exp_end delay st args polls m = Returns (r, x) \<Longrightarrow>
   r = WIFI_OK \<or> r = WIFI_TIMEOUT"
proof (induction polls arbitrary: m rule: length_induct)
  case (1 polls)
  note ret = "1.prems"
  show ?case
  proof (cases polls)
    case Nil
    with ret show ?thesis by (simp add: wait_Nil)
  next
    case p: (Cons bt rest)
    show ?thesis
    proof (cases "run_irqs bt m")
      case None
      with ret p show ?thesis by (simp add: wait_fault1)
    next
      case m1: (Some m1)
      show ?thesis
      proof (cases "delay \<le> get_tick m1 - st")
        case True
        with ret p m1 show ?thesis by (simp add: wait_timeout)
      next
        case late: False
        show ?thesis
        proof (cases rest)
          case Nil
          have "send_command_wait vsscanf exp exp_parse exp_end delay st args [bt] m = Running"
            by (rule wait_end1 [OF m1 late])
          with ret p Nil show ?thesis by simp
        next
          case r: (Cons bs rest')
          show ?thesis
          proof (cases "run_irqs bs m1")
            case None
            have "send_command_wait vsscanf exp exp_parse exp_end delay st args
                    (bt # bs # rest') m = Fault WriteOutOfBounds"
              by (rule wait_fault2 [OF m1 late None])
            with ret p r show ?thesis by simp
          next
            case m2: (Some m2)
            show ?thesis
            proof (cases "c_string (uart_receive_buffer m2)")
              case None
              have "send_command_wait vsscanf exp exp_parse exp_end delay st args
                      (bt # bs # rest') m = Fault ScanUnterminated"
                by (rule wait_unterminated [OF m1 late m2 None])
              with ret p r show ?thesis by simp
            next
              case str: (Some str)
              show ?thesis
              proof (cases "strstr str exp_end")
                case None
                have "send_command_wait vsscanf exp exp_parse exp_end delay st args polls m =
                      send_command_wait vsscanf exp exp_parse exp_end delay st args rest' m2"
                  unfolding p r by (rule wait_quiet [OF m1 late m2 str None])
                with ret have ret':
                  "send_command_wait vsscanf exp exp_parse exp_end delay st args rest' m2 =
                   Returns (r, x)" by simp
                have len: "length rest' < length polls" unfolding p r by simp
                from "1.IH" [rule_format, OF len ret'] show ?thesis .
              next
                case found: (Some found)
                show ?thesis
                proof (cases rest')
                  case Nil
                  have "send_command_wait vsscanf exp exp_parse exp_end delay st args
                          [bt, bs] m = Running"
                    by (rule wait_end2 [OF m1 late m2 str found])
                  with ret p r Nil show ?thesis by simp
                next
                  case r': (Cons bc rest'')
                  show ?thesis
                  proof (cases "run_irqs bc m2")
                    case None
                    have "send_command_wait vsscanf exp exp_parse exp_end delay st args
                            (bt # bs # bc # rest'') m = Fault WriteOutOfBounds"
                      by (rule wait_fault3 [OF m1 late m2 str found None])
                    with ret p r r' show ?thesis by simp
                  next
                    case (Some m3)
                    have "send_command_wait vsscanf exp exp_parse exp_end delay st args
                            (bt # bs # bc # rest'') m =
                          Returns (WIFI_OK,
                            send_command_parse vsscanf exp exp_parse (captured m3) args,
                            m3, rest'')"
                      by (rule wait_found [OF m1 late m2 str found Some])
                    with ret show ?thesis unfolding p r r' by simp
                  qed
                qed
              qed
            qed
          qed
        qed
      qed
    qed
  qed
qed

lemma wait_total:
  assumes "\<forall>j<k. scan_at exp_end polls m j \<noteq> None"
    and "machine_at polls m (2 * k + 1) = Some mk" and "delay \<le> get_tick mk - st"
    and "2 * k < length polls"
  shows "\<exists>r a m' rest. send_command_wait vsscanf exp exp_parse exp_end delay st args polls m =
            Returns (r, a, m', rest) \<and> (r = WIFI_OK \<or> r = WIFI_TIMEOUT)"
  using assms
proof (induction k arbitrary: polls m)
  case 0
  then obtain bt rest where p: "polls = bt # rest" by (cases polls) auto
  with 0 have "run_irqs bt m = Some mk" by (simp add: machine_at_1)
  then have w: "send_command_wait vsscanf exp exp_parse exp_end delay st args (bt # rest) m =
                Returns (WIFI_TIMEOUT, args, mk, rest)"
    using 0(3) by (rule wait_timeout)
  show ?case unfolding p w by simp
next
  case (Suc k)
  from Suc.prems(4) obtain bt bs bc rest where p: "polls = bt # bs # bc # rest"
    by (cases polls; cases "tl polls"; cases "tl (tl polls)") auto
  have "machine_at (bt # bs # bc # rest) m (Suc (Suc (Suc (2 * k)))) = Some mk"
    using Suc.prems(2) unfolding p by simp
  then obtain m1 where m1: "run_irqs bt m = Some m1"
      and a1: "machine_at (bs # bc # rest) m1 (Suc (Suc (2 * k))) = Some mk"
    by (rule machine_at_Suc_Some)
  from a1 obtain m2 where m2: "run_irqs bs m1 = Some m2"
      and a2: "machine_at (bc # rest) m2 (Suc (2 * k)) = Some mk"
    by (rule machine_at_Suc_Some)
  from a2 obtain m3 where m3: "run_irqs bc m2 = Some m3"
    by (rule machine_at_Suc_Some)
  show ?case
  proof (cases "delay \<le> get_tick m1 - st")
    case True
    have w: "send_command_wait vsscanf exp exp_parse exp_end delay st args
               (bt # bs # bc # rest) m = Returns (WIFI_TIMEOUT, args, m1, bs # bc # rest)"
      using m1 True by (rule wait_timeout)
    show ?thesis unfolding p w by simp
  next
    case False
    have "scan_at exp_end polls m 0 \<noteq> None" using Suc.prems(1) by blast
    then obtain str where str: "c_string (uart_receive_buffer m2) = Some str"
      unfolding p using m1 m2
      by (auto simp: scan_at_def machine_at_def run_irqs_append split: option.splits)
    show ?thesis
    proof (cases "strstr str exp_end")
      case None
      have q: "\<forall>j<k. scan_at exp_end (bc # rest) m2 j \<noteq> None"
      proof (intro allI impI)
        fix j assume "j < k"
        then have "Suc j < Suc k" by simp
        with Suc.prems(1) have "scan_at exp_end polls m (Suc j) \<noteq> None" by blast
        then show "scan_at exp_end (bc # rest) m2 j \<noteq> None"
          unfolding p by (simp add: scan_at_shift [OF m1 m2])
      qed
      have mk: "machine_at (bc # rest) m2 (2 * k + 1) = Some mk" using a2 by simp
      have len: "2 * k < length (bc # rest)" using Suc.prems(4) unfolding p by simp
      have eq: "send_command_wait vsscanf exp exp_parse exp_end delay st args polls m =
        send_command_wait vsscanf exp exp_parse exp_end delay st args (bc # rest) m2"
        unfolding p by (rule wait_quiet [OF m1 False m2 str None])
      show ?thesis unfolding eq by (rule Suc.IH [OF q mk Suc.prems(3) len])
    next
      case (Some found)
      have w: "send_command_wait vsscanf exp exp_parse exp_end delay st args
                 (bt # bs # bc # rest) m =
               Returns (WIFI_OK, send_command_parse vsscanf exp exp_parse (captured m3) args,
                        m3, rest)"
        by (rule wait_found [OF m1 False m2 str Some m3])
      show ?thesis unfolding p w by simp
    qed
  qed
qed

lemma send_command_unfold:
  "send_command_begin command b0 b1 b2 m = Some (st, m0) \<Longrightarrow>
   send_command vsscanf command exp exp_parse exp_end n delay args (b0 # b1 # b2 # polls) m =
   send_command_wait vsscanf exp exp_parse exp_end delay st args polls m0"
  by simp

lemma send_command_response:
  assumes "send_command vsscanf command exp exp_parse exp_end n delay args sched m = Returns (r, x)"
  shows "r = WIFI_OK \<or> r = WIFI_TIMEOUT"
proof -
  from assms obtain b0 b1 b2 polls where s: "sched = b0 # b1 # b2 # polls"
    by (cases sched; cases "tl sched"; cases "tl (tl sched)") auto
  from assms obtain st m0 where "send_command_begin command b0 b1 b2 m = Some (st, m0)"
    unfolding s by (cases "send_command_begin command b0 b1 b2 m") auto
  from send_command_unfold [OF this, of vsscanf exp exp_parse exp_end n delay args polls] assms
  have "send_command_wait vsscanf exp exp_parse exp_end delay st args polls m0 = Returns (r, x)"
    unfolding s by simp
  then show ?thesis by (rule wait_response)
qed

lemma run_irqs_in_bounds:
  assumes "uart_receive_index m < length (uart_receive_buffer m)"
  shows "\<exists>m'. run_irqs es m = Some m' \<and>
              uart_receive_index m' < length (uart_receive_buffer m') \<and>
              length (uart_receive_buffer m') = length (uart_receive_buffer m)"
  using assms
proof (induction es arbitrary: m)
  case Nil
  then show ?case by simp
next
  case (Cons e es)
  show ?case
  proof (cases e)
    case SysTick
    have "uart_receive_index (SysTick_Handler m) < length (uart_receive_buffer (SysTick_Handler m))"
      using Cons.prems by (simp add: SysTick_Handler_def tick_increment_def)
    from Cons.IH [OF this] show ?thesis
      unfolding SysTick by (simp add: SysTick_Handler_def tick_increment_def)
  next
    case (USART1 rdr)
    show ?thesis
    proof (cases rdr)
      case None
      from Cons.IH [OF Cons.prems] show ?thesis
        unfolding USART1 None by (simp add: USART1_IRQHandler_def)
    next
      case (Some b)
      define m1 where "m1 = m \<lparr> uart_receive_buffer :=
          (uart_receive_buffer m)[uart_receive_index m := b],
          uart_receive_index := (uart_receive_index m + 1) mod length (uart_receive_buffer m) \<rparr>"
      have h: "USART1_IRQHandler (Some b) m = Some m1"
        using Cons.prems by (simp add: USART1_IRQHandler_def m1_def)
      have "0 < length (uart_receive_buffer m)" using Cons.prems by linarith
      then have "(uart_receive_index m + 1) mod length (uart_receive_buffer m) <
                 length (uart_receive_buffer m)"
        by (rule mod_less_divisor)
      then have "uart_receive_index m1 < length (uart_receive_buffer m1)"
        by (simp add: m1_def)
      from Cons.IH [OF this] show ?thesis
        unfolding USART1 Some by (simp add: h) (simp add: m1_def)
    qed
  qed
qed

lemma send_command_begin_in_bounds:
  assumes "uart_receive_index m < length (uart_receive_buffer m)"
  shows "\<exists>st m0. send_command_begin command b0 b1 b2 m = Some (st, m0) \<and>
           uart_receive_index m0 = 0 \<and>
           length (uart_receive_buffer m0) = length (uart_receive_buffer m)"
proof -
  from run_irqs_in_bounds [OF assms, of b0] obtain m0 where
    m0: "run_irqs b0 m = Some m0" "uart_receive_index m0 < length (uart_receive_buffer m0)"
        "length (uart_receive_buffer m0) = length (uart_receive_buffer m)" by blast
  from run_irqs_in_bounds [OF m0(2), of b1] obtain m1 where
    m1: "run_irqs b1 m0 = Some m1" "uart_receive_index m1 < length (uart_receive_buffer m1)"
        "length (uart_receive_buffer m1) = length (uart_receive_buffer m0)" by blast
  define m1' where "m1' = m1 \<lparr> uart_receive_buffer :=
                              replicate (length (uart_receive_buffer m1)) (CHR 0x00) \<rparr>"
  have "uart_receive_index m1' < length (uart_receive_buffer m1')"
    using m1(2) by (simp add: m1'_def)
  from run_irqs_in_bounds [OF this, of b2] obtain m2 where
    m2: "run_irqs b2 m1' = Some m2"
        "length (uart_receive_buffer m2) = length (uart_receive_buffer m1')" by blast
  show ?thesis
    using m0 m1 m2 unfolding m1'_def
    by (simp add: send_command_begin_def uart1_transmit_def)
qed

text \<open>The concrete schedules, evaluated.\<close>

lemma begin_cleared_8:
  "send_command_begin command [] [] [] (cleared_machine 8) =
   Some (0, (cleared_machine 8) \<lparr> uart1_tx := command @ [CHR 0x0D, CHR 0x0A] \<rparr>)"
  by (simp add: send_command_begin_def cleared_machine_def get_tick_def uart1_transmit_def)


lemma polls_silent_observed:
  "elapsed_at 0 (polls_silent n) ((cleared_machine 8) \<lparr> uart1_tx := x \<rparr>) 0 = Some 1"
  "scan_at ''OK'' (polls_silent n) ((cleared_machine 8) \<lparr> uart1_tx := x \<rparr>) 0 = Some False"
  "machine_at (polls_silent n) ((cleared_machine 8) \<lparr> uart1_tx := x \<rparr>) 3 =
     Some \<lparr> current_tick = 1 + of_nat n, uart_receive_buffer = replicate 8 (CHR 0x00),
            uart_receive_index = 0, uart1_tx = x \<rparr>"
  "length (polls_silent n) = 4"
  "drop 3 (polls_silent n) = [[]]"
  by (simp_all add: elapsed_at_def scan_at_def machine_at_def polls_silent_def
      cleared_machine_def get_tick_def SysTick_Handler_def tick_increment_def c_string_def
      run_irqs_append run_irqs_SysTicks)

lemma send_command_begin_eq:
  assumes "run_irqs b0 m = Some ma"
    and "run_irqs b1 ma = Some mb"
    and "run_irqs b2 (mb \<lparr> uart_receive_buffer :=
                            replicate (length (uart_receive_buffer mb)) (CHR 0x00) \<rparr>) = Some mc"
  shows "send_command_begin command b0 b1 b2 m =
         Some (current_tick ma,
               mc \<lparr> uart_receive_index := 0,
                    uart1_tx := uart1_tx mc @ command @ [CHR 0x0D, CHR 0x0A] \<rparr>)"
  using assms by (simp add: send_command_begin_def get_tick_def uart1_transmit_def)

lemma stale_machine_begin:
  "run_irqs [] stale_machine = Some stale_machine"
  "run_irqs [] (stale_machine \<lparr> uart_receive_buffer :=
                   replicate (length (uart_receive_buffer stale_machine)) (CHR 0x00) \<rparr>) =
     Some \<lparr> current_tick = 40, uart_receive_buffer = replicate 8 (CHR 0x00),
            uart_receive_index = 7, uart1_tx = [] \<rparr>"
  "current_tick stale_machine = 40"
  by (simp_all add: stale_machine_def replicate_8)

lemma polls_ok_observed_40:
  "elapsed_at 40 polls_ok \<lparr> current_tick = 40, uart_receive_buffer = replicate 8 (CHR 0x00),
                            uart_receive_index = 0, uart1_tx = x \<rparr> 0 = Some 1"
  "scan_at ''OK'' polls_ok \<lparr> current_tick = 40, uart_receive_buffer = replicate 8 (CHR 0x00),
                             uart_receive_index = 0, uart1_tx = x \<rparr> 0 = Some False"
  "elapsed_at 40 polls_ok \<lparr> current_tick = 40, uart_receive_buffer = replicate 8 (CHR 0x00),
                            uart_receive_index = 0, uart1_tx = x \<rparr> 1 = Some 2"
  "scan_at ''OK'' polls_ok \<lparr> current_tick = 40, uart_receive_buffer = replicate 8 (CHR 0x00),
                             uart_receive_index = 0, uart1_tx = x \<rparr> 1 = Some True"
  "machine_at polls_ok \<lparr> current_tick = 40, uart_receive_buffer = replicate 8 (CHR 0x00),
                         uart_receive_index = 0, uart1_tx = x \<rparr> 5 =
     Some \<lparr> current_tick = 42,
            uart_receive_buffer = [CHR ''O'', CHR ''K'', CHR 0x0D, CHR 0x0A,
                                   CHR 0x00, CHR 0x00, CHR 0x00, CHR 0x00],
            uart_receive_index = 4, uart1_tx = x \<rparr>"
  by (simp_all add: elapsed_at_def scan_at_def machine_at_def polls_ok_def
      get_tick_def SysTick_Handler_def tick_increment_def c_string_def rx_bytes_def
      USART1_IRQHandler_def replicate_8)

lemma polls_silent_observed_40:
  "elapsed_at 40 (polls_silent n)
     \<lparr> current_tick = 40, uart_receive_buffer = replicate 8 (CHR 0x00),
       uart_receive_index = 0, uart1_tx = x \<rparr> 0 = Some 1"
  "scan_at ''OK'' (polls_silent n)
     \<lparr> current_tick = 40, uart_receive_buffer = replicate 8 (CHR 0x00),
       uart_receive_index = 0, uart1_tx = x \<rparr> 0 = Some False"
  "machine_at (polls_silent n)
     \<lparr> current_tick = 40, uart_receive_buffer = replicate 8 (CHR 0x00),
       uart_receive_index = 0, uart1_tx = x \<rparr> 3 =
     Some \<lparr> current_tick = 41 + of_nat n, uart_receive_buffer = replicate 8 (CHR 0x00),
            uart_receive_index = 0, uart1_tx = x \<rparr>"
  by (simp_all add: elapsed_at_def scan_at_def machine_at_def polls_silent_def
      get_tick_def SysTick_Handler_def tick_increment_def c_string_def
      run_irqs_append run_irqs_SysTicks)

text \<open>
  Claim C6.  The start time is the tick counter at the entry of the call, read after
  the interrupts of batch \<open>b0\<close>; the polling starts from the machine \<open>m0\<close> that the
  lines before the loop leave: receive buffer cleared, index 0, command and CR LF
  transmitted.  The elapsed count of a read is the 32-bit difference between the tick
  counter at that read and the start time.  When the first \<open>k\<close> iterations of the
  polling loop read an elapsed count below the timeout and scan a buffer without the
  terminal token, and the next read of the tick counter finds the elapsed count at or
  above the timeout, \<^verbatim>\<open>send_command\<close> returns \<^verbatim>\<open>WIFI_TIMEOUT\<close> at that read: the
  output destinations are untouched, the machine is the one of that read, and the
  schedule left over starts right after it, so no scan and no further read follows.
\<close>

theorem send_command_timeout:
  assumes "run_irqs b0 m = Some ma"
    and "run_irqs b1 ma = Some mb"
    and "run_irqs b2 (mb \<lparr> uart_receive_buffer :=
                            replicate (length (uart_receive_buffer mb)) (CHR 0x00) \<rparr>) = Some mc"
    and "m0 = mc \<lparr> uart_receive_index := 0,
                   uart1_tx := uart1_tx mc @ command @ [CHR 0x0D, CHR 0x0A] \<rparr>"
    and "\<forall>j<k. (\<exists>e. elapsed_at (current_tick ma) polls m0 j = Some e \<and> e < delay) \<and>
                scan_at exp_end polls m0 j = Some False"
    and "machine_at polls m0 (2 * k + 1) = Some mk"
    and "delay \<le> current_tick mk - current_tick ma"
    and "2 * k < length polls"
  shows "send_command vsscanf command exp exp_parse exp_end num_of_exp delay args
           (b0 # b1 # b2 # polls) m =
         Returns (WIFI_TIMEOUT, args, mk, drop (2 * k + 1) polls)"
proof -
  have b: "send_command_begin command b0 b1 b2 m = Some (current_tick ma, m0)"
    unfolding assms(4) using assms(1-3) by (rule send_command_begin_eq)
  have d: "delay \<le> get_tick mk - current_tick ma"
    using assms(7) by (simp add: get_tick_def)
  show ?thesis
    unfolding send_command_unfold [OF b]
    using assms(5) assms(6) d assms(8) by (rule wait_times_out)
qed

theorem send_command_timeout_witness:
  "send_command (\<lambda>t f a. 42) ''AT+CIPMUX?'' (Some ''+CIPMUX:'') (Some ''%d'') ''OK'' 1 2 (7::int)
     ([] # [] # [] # polls_silent 1) stale_machine =
   Returns (WIFI_TIMEOUT, 7,
            \<lparr> current_tick = 42, uart_receive_buffer = replicate 8 (CHR 0x00),
              uart_receive_index = 0, uart1_tx = ''AT+CIPMUX?'' @ [CHR 0x0D, CHR 0x0A] \<rparr>,
            [[]])"
proof -
  let ?mc = "\<lparr> current_tick = 40, uart_receive_buffer = replicate 8 (CHR 0x00),
              uart_receive_index = 7, uart1_tx = [] \<rparr>"
  let ?m0 = "\<lparr> current_tick = 40, uart_receive_buffer = replicate 8 (CHR 0x00),
              uart_receive_index = 0, uart1_tx = ''AT+CIPMUX?'' @ [CHR 0x0D, CHR 0x0A] \<rparr>"
  let ?mk = "\<lparr> current_tick = 42, uart_receive_buffer = replicate 8 (CHR 0x00),
              uart_receive_index = 0, uart1_tx = ''AT+CIPMUX?'' @ [CHR 0x0D, CHR 0x0A] \<rparr>"
  have a1: "run_irqs [] stale_machine = Some stale_machine" by (rule stale_machine_begin)
  have a3: "run_irqs [] (stale_machine \<lparr> uart_receive_buffer :=
                   replicate (length (uart_receive_buffer stale_machine)) (CHR 0x00) \<rparr>) = Some ?mc"
    by (rule stale_machine_begin)
  have a4: "?m0 = ?mc \<lparr> uart_receive_index := 0,
                        uart1_tx := uart1_tx ?mc @ ''AT+CIPMUX?'' @ [CHR 0x0D, CHR 0x0A] \<rparr>"
    by simp
  have h2: "\<forall>j<1. (\<exists>e. elapsed_at (current_tick stale_machine) (polls_silent 1) ?m0 j = Some e \<and>
                      e < 2) \<and>
                scan_at ''OK'' (polls_silent 1) ?m0 j = Some False"
    unfolding stale_machine_begin(3) by (simp add: polls_silent_observed_40)
  have h3: "machine_at (polls_silent 1) ?m0 (2 * 1 + 1) = Some ?mk"
    by (simp add: polls_silent_observed_40)
  have h4: "(2::32 word) \<le> current_tick ?mk - current_tick stale_machine"
    unfolding stale_machine_begin(3) by simp
  have h5: "2 * 1 < length (polls_silent 1)" by (simp add: polls_silent_observed)
  from send_command_timeout [OF a1 a1 a3 a4 h2 h3 h4 h5, of "\<lambda>t f a. 42::int"
      "Some ''+CIPMUX:''" "Some ''%d''" 1 "7::int"]
  show ?thesis by (simp add: polls_silent_observed)
qed

text \<open>
  Claim C2, as the code has it.  The start time and the machine \<open>m0\<close> from which the
  polling starts are those of claim C6.  When the first \<open>k\<close> iterations neither time
  out nor find the terminal token, and iteration \<open>k\<close> reads an elapsed tick count below
  the timeout and its scan, which follows that read, finds the terminal token,
  \<^verbatim>\<open>send_command\<close> returns \<^verbatim>\<open>WIFI_OK\<close>, whatever the ack token, the scan format,
  \<^verbatim>\<open>num_of_exp\<close> and \<^verbatim>\<open>vsscanf\<close> are.  The output destinations are those
  \<open>send_command_parse\<close> leaves; they are the ones passed in when \<^verbatim>\<open>exp_parse\<close> is
  null or \<^verbatim>\<open>exp\<close> is null or \<^verbatim>\<open>exp\<close> does not occur in the captured text.
\<close>

theorem send_command_ok_whatever_parsed:
  assumes "run_irqs b0 m = Some ma"
    and "run_irqs b1 ma = Some mb"
    and "run_irqs b2 (mb \<lparr> uart_receive_buffer :=
                            replicate (length (uart_receive_buffer mb)) (CHR 0x00) \<rparr>) = Some mc"
    and "m0 = mc \<lparr> uart_receive_index := 0,
                   uart1_tx := uart1_tx mc @ command @ [CHR 0x0D, CHR 0x0A] \<rparr>"
    and "\<forall>j<k. (\<exists>e. elapsed_at (current_tick ma) polls m0 j = Some e \<and> e < delay) \<and>
                scan_at exp_end polls m0 j = Some False"
    and "elapsed_at (current_tick ma) polls m0 k = Some e" and "e < delay"
    and "scan_at exp_end polls m0 k = Some True"
    and "machine_at polls m0 (2 * k + 3) = Some m3"
    and "2 * k + 2 < length polls"
  shows "send_command vsscanf command exp exp_parse exp_end num_of_exp delay args
           (b0 # b1 # b2 # polls) m =
         Returns (WIFI_OK, send_command_parse vsscanf exp exp_parse (captured m3) args, m3,
                  drop (2 * k + 3) polls) \<and>
         (exp_parse = None \<or> (\<forall>a. exp = Some a \<longrightarrow> strstr (captured m3) a = None) \<longrightarrow>
          send_command_parse vsscanf exp exp_parse (captured m3) args = args)"
proof
  have b: "send_command_begin command b0 b1 b2 m = Some (current_tick ma, m0)"
    unfolding assms(4) using assms(1-3) by (rule send_command_begin_eq)
  show "send_command vsscanf command exp exp_parse exp_end num_of_exp delay args
           (b0 # b1 # b2 # polls) m =
         Returns (WIFI_OK, send_command_parse vsscanf exp exp_parse (captured m3) args, m3,
                  drop (2 * k + 3) polls)"
    unfolding send_command_unfold [OF b]
    using assms(5-10) by (rule wait_returns_ok)
  show "exp_parse = None \<or> (\<forall>a. exp = Some a \<longrightarrow> strstr (captured m3) a = None) \<longrightarrow>
          send_command_parse vsscanf exp exp_parse (captured m3) args = args"
    by (auto simp: send_command_parse_def split: option.splits)
qed

theorem send_command_ok_whatever_parsed_witness:
  "send_command (\<lambda>t f a. 42) ''AT+CIPMUX?'' (Some ''+CIPMUX:'') (Some ''%d'') ''OK'' 1 1000
     (7::int) ([] # [] # [] # polls_ok) stale_machine =
   Returns (WIFI_OK, 7,
            \<lparr> current_tick = 42,
              uart_receive_buffer = [CHR ''O'', CHR ''K'', CHR 0x0D, CHR 0x0A,
                                     CHR 0x00, CHR 0x00, CHR 0x00, CHR 0x00],
              uart_receive_index = 4, uart1_tx = ''AT+CIPMUX?'' @ [CHR 0x0D, CHR 0x0A] \<rparr>,
            [])"
proof -
  let ?mc = "\<lparr> current_tick = 40, uart_receive_buffer = replicate 8 (CHR 0x00),
              uart_receive_index = 7, uart1_tx = [] \<rparr>"
  let ?m0 = "\<lparr> current_tick = 40, uart_receive_buffer = replicate 8 (CHR 0x00),
              uart_receive_index = 0, uart1_tx = ''AT+CIPMUX?'' @ [CHR 0x0D, CHR 0x0A] \<rparr>"
  let ?m3 = "\<lparr> current_tick = 42,
              uart_receive_buffer = [CHR ''O'', CHR ''K'', CHR 0x0D, CHR 0x0A,
                                     CHR 0x00, CHR 0x00, CHR 0x00, CHR 0x00],
              uart_receive_index = 4, uart1_tx = ''AT+CIPMUX?'' @ [CHR 0x0D, CHR 0x0A] \<rparr>"
  have a1: "run_irqs [] stale_machine = Some stale_machine" by (rule stale_machine_begin)
  have a3: "run_irqs [] (stale_machine \<lparr> uart_receive_buffer :=
                   replicate (length (uart_receive_buffer stale_machine)) (CHR 0x00) \<rparr>) = Some ?mc"
    by (rule stale_machine_begin)
  have a4: "?m0 = ?mc \<lparr> uart_receive_index := 0,
                        uart1_tx := uart1_tx ?mc @ ''AT+CIPMUX?'' @ [CHR 0x0D, CHR 0x0A] \<rparr>"
    by simp
  have h2: "\<forall>j<1. (\<exists>e. elapsed_at (current_tick stale_machine) polls_ok ?m0 j = Some e \<and>
                      e < 1000) \<and>
                scan_at ''OK'' polls_ok ?m0 j = Some False"
    unfolding stale_machine_begin(3) by (simp add: polls_ok_observed_40)
  have h3: "elapsed_at (current_tick stale_machine) polls_ok ?m0 1 = Some 2"
    unfolding stale_machine_begin(3) by (rule polls_ok_observed_40)
  have h4: "(2::32 word) < 1000" by simp
  have h5: "scan_at ''OK'' polls_ok ?m0 1 = Some True" by (rule polls_ok_observed_40)
  have h6: "machine_at polls_ok ?m0 (2 * 1 + 3) = Some ?m3"
    by (simp add: polls_ok_observed_40)
  have h7: "2 * 1 + 2 < length polls_ok" by (simp add: polls_ok_def)
  have n: "\<forall>a. Some ''+CIPMUX:'' = Some a \<longrightarrow> strstr (captured ?m3) a = None"
    by (simp add: captured_def strncpy_def)
  from send_command_ok_whatever_parsed [OF a1 a1 a3 a4 h2 h3 h4 h5 h6 h7, of "\<lambda>t f a. 42::int"
      "Some ''+CIPMUX:''" "Some ''%d''" 1 "7::int"] n
  show ?thesis by (simp add: polls_ok_def)
qed

text \<open>
  Claim C2, as stated, fails.  In a transaction with the timeout 2 that starts at tick 0,
  the scan of the first iteration, at the elapsed count 1, finds nothing.  Then
  \<^verbatim>\<open>OK\<close>, CR, LF arrives: the terminal token is in the receive buffer while the
  elapsed count is 1, below the timeout.  The next tick comes before the second
  iteration reads the counter, the timeout test of that iteration fails before any scan,
  and \<^verbatim>\<open>send_command\<close> returns \<^verbatim>\<open>WIFI_TIMEOUT\<close> with the token in the buffer.
\<close>

theorem send_command_ok_whatever_parsed_counterexample:
  "run_irqs ([SysTick] @ [] @ rx_bytes [CHR ''O'', CHR ''K'', CHR 0x0D, CHR 0x0A])
     \<lparr> current_tick = 0, uart_receive_buffer = replicate 8 (CHR 0x00),
       uart_receive_index = 0, uart1_tx = ''AT'' @ [CHR 0x0D, CHR 0x0A] \<rparr> =
     Some \<lparr> current_tick = 1,
            uart_receive_buffer = [CHR ''O'', CHR ''K'', CHR 0x0D, CHR 0x0A,
                                   CHR 0x00, CHR 0x00, CHR 0x00, CHR 0x00],
            uart_receive_index = 4, uart1_tx = ''AT'' @ [CHR 0x0D, CHR 0x0A] \<rparr> \<and>
   (1::32 word) - 0 < 2 \<and>
   c_string [CHR ''O'', CHR ''K'', CHR 0x0D, CHR 0x0A,
             CHR 0x00, CHR 0x00, CHR 0x00, CHR 0x00] =
     Some [CHR ''O'', CHR ''K'', CHR 0x0D, CHR 0x0A] \<and>
   strstr [CHR ''O'', CHR ''K'', CHR 0x0D, CHR 0x0A] ''OK'' =
     Some [CHR ''O'', CHR ''K'', CHR 0x0D, CHR 0x0A] \<and>
   send_command (\<lambda>t f a. 42) ''AT'' (Some ''OK'') None ''OK'' 0 2 (7::int)
     ([] # [] # [] # polls_late) (cleared_machine 8) =
   Returns (WIFI_TIMEOUT, 7,
            \<lparr> current_tick = 2,
              uart_receive_buffer = [CHR ''O'', CHR ''K'', CHR 0x0D, CHR 0x0A,
                                     CHR 0x00, CHR 0x00, CHR 0x00, CHR 0x00],
              uart_receive_index = 4, uart1_tx = ''AT'' @ [CHR 0x0D, CHR 0x0A] \<rparr>,
            [[]])"
  by (simp add: send_command_begin_def send_command_wait.simps polls_late_def
      cleared_machine_def get_tick_def uart1_transmit_def SysTick_Handler_def
      tick_increment_def c_string_def rx_bytes_def USART1_IRQHandler_def replicate_8
      WIFI_TIMEOUT_def word_le_nat_alt word_less_nat_alt)

text \<open>
  Claim C9.  Whenever some read of the tick counter in the polling loop finds the
  elapsed count at or above the timeout and every scan before it meets a terminated
  buffer, \<^verbatim>\<open>send_command\<close> returns, and it returns \<^verbatim>\<open>WIFI_OK\<close> or
  \<^verbatim>\<open>WIFI_TIMEOUT\<close>, not \<^verbatim>\<open>WIFI_FAIL\<close>.  No call of \<^verbatim>\<open>send_command\<close> at all
  returns another value than these two.  \<^verbatim>\<open>WiFi_check\<close> returns \<^verbatim>\<open>WIFI_FAIL\<close>
  exactly when its call of \<^verbatim>\<open>send_command\<close> returns a value other than
  \<^verbatim>\<open>WIFI_OK\<close>.
\<close>

theorem send_command_never_FAIL:
  assumes "send_command_begin command b0 b1 b2 m = Some (start_time, m0)"
    and "\<forall>j<k. scan_at exp_end polls m0 j \<noteq> None"
    and "machine_at polls m0 (2 * k + 1) = Some mk"
    and "delay \<le> get_tick mk - start_time"
    and "2 * k < length polls"
  shows "(\<exists>r args' m' rest.
            send_command vsscanf command exp exp_parse exp_end num_of_exp delay args
              (b0 # b1 # b2 # polls) m = Returns (r, args', m', rest) \<and>
            (r = WIFI_OK \<or> r = WIFI_TIMEOUT) \<and> r \<noteq> WIFI_FAIL) \<and>
         (\<forall>v c e p t n d a s mm r x.
            send_command v c e p t n d (a::'a) s mm = Returns (r, x) \<longrightarrow>
            (r = WIFI_OK \<or> r = WIFI_TIMEOUT) \<and> r \<noteq> WIFI_FAIL) \<and>
         (\<forall>v s mm r a m' rest.
            send_command v ''AT'' (Some ''OK'') None ''OK'' 0 1000 () s mm =
              Returns (r, a, m', rest) \<longrightarrow>
            WiFi_check v s mm =
              Returns (if r = WIFI_OK then WIFI_OK else WIFI_FAIL, m', rest))"
proof (intro conjI)
  from wait_total [OF assms(2-5), of vsscanf exp exp_parse args]
  show "\<exists>r args' m' rest.
            send_command vsscanf command exp exp_parse exp_end num_of_exp delay args
              (b0 # b1 # b2 # polls) m = Returns (r, args', m', rest) \<and>
            (r = WIFI_OK \<or> r = WIFI_TIMEOUT) \<and> r \<noteq> WIFI_FAIL"
    unfolding send_command_unfold [OF assms(1)]
    by (auto simp: WIFI_OK_def WIFI_TIMEOUT_def WIFI_FAIL_def)
  show "\<forall>v c e p t n d a s mm r x.
            send_command v c e p t n d (a::'a) s mm = Returns (r, x) \<longrightarrow>
            (r = WIFI_OK \<or> r = WIFI_TIMEOUT) \<and> r \<noteq> WIFI_FAIL"
    by (auto dest: send_command_response simp: WIFI_OK_def WIFI_TIMEOUT_def WIFI_FAIL_def)
  show "\<forall>v s mm r a m' rest.
            send_command v ''AT'' (Some ''OK'') None ''OK'' 0 1000 () s mm =
              Returns (r, a, m', rest) \<longrightarrow>
            WiFi_check v s mm =
              Returns (if r = WIFI_OK then WIFI_OK else WIFI_FAIL, m', rest)"
    by (simp add: WiFi_check_def)
qed

theorem send_command_never_FAIL_witness:
  "send_command (\<lambda>t f a. a) ''AT'' (Some ''OK'') None ''OK'' 0 1000 ()
     ([] # [] # [] # polls_silent 1000) (cleared_machine 8) =
   Returns (WIFI_TIMEOUT, (),
            \<lparr> current_tick = 1001, uart_receive_buffer = replicate 8 (CHR 0x00),
              uart_receive_index = 0, uart1_tx = ''AT'' @ [CHR 0x0D, CHR 0x0A] \<rparr>,
            [[]]) \<and>
   WiFi_check (\<lambda>t f a. a) ([] # [] # [] # polls_silent 1000) (cleared_machine 8) =
   Returns (WIFI_FAIL,
            \<lparr> current_tick = 1001, uart_receive_buffer = replicate 8 (CHR 0x00),
              uart_receive_index = 0, uart1_tx = ''AT'' @ [CHR 0x0D, CHR 0x0A] \<rparr>,
            [[]])"
proof -
  let ?m0 = "(cleared_machine 8) \<lparr> uart1_tx := ''AT'' @ [CHR 0x0D, CHR 0x0A] \<rparr>"
  let ?mk = "\<lparr> current_tick = 1001, uart_receive_buffer = replicate 8 (CHR 0x00),
              uart_receive_index = 0, uart1_tx = ''AT'' @ [CHR 0x0D, CHR 0x0A] \<rparr>"
  have h1: "send_command_begin ''AT'' [] [] [] (cleared_machine 8) = Some (0, ?m0)"
    by (rule begin_cleared_8)
  have q: "\<forall>j<1. (\<exists>e. elapsed_at 0 (polls_silent 1000) ?m0 j = Some e \<and> e < 1000) \<and>
                scan_at ''OK'' (polls_silent 1000) ?m0 j = Some False"
    by (simp add: polls_silent_observed)
  have h2: "\<forall>j<1. scan_at ''OK'' (polls_silent 1000) ?m0 j \<noteq> None"
    by (simp add: polls_silent_observed)
  have h3: "machine_at (polls_silent 1000) ?m0 (2 * 1 + 1) = Some ?mk"
    by (simp add: polls_silent_observed)
  have h4: "(1000::32 word) \<le> get_tick ?mk - 0" by (simp add: get_tick_def)
  have h5: "2 * 1 < length (polls_silent 1000)" by (simp add: polls_silent_observed)
  have e: "send_command (\<lambda>t f a. a) ''AT'' (Some ''OK'') None ''OK'' 0 1000 ()
     ([] # [] # [] # polls_silent 1000) (cleared_machine 8) =
     Returns (WIFI_TIMEOUT, (), ?mk, [[]])"
    unfolding send_command_unfold [OF h1]
    using wait_times_out [OF q h3 h4 h5, of "\<lambda>t f a. a" "Some ''OK''" None "()"]
    by (simp add: polls_silent_observed)
  from send_command_never_FAIL [OF h1 h2 h3 h4 h5, of "\<lambda>t f a. a" "Some ''OK''" None 0 "()",
      THEN conjunct2, THEN conjunct2, rule_format, OF e] e
  show ?thesis by (simp add: WIFI_OK_def WIFI_TIMEOUT_def)
qed

section \<open>The main loop: proofs\<close>







end
